theory Spec2Isabelle
  imports Main
begin

section \<open>Data model\<close>

text \<open>
  The Fabricator of \<^verbatim>\<open>extensionsHelper.ts\<close> (lines 613 to 1233) drives a set of function
  endpoints to a planned state. Endpoint objects are shared by reference between the plan,
  the results and the errors, and the Fabricator writes \<^verbatim>\<open>labels\<close> and \<^verbatim>\<open>uri\<close> into them, so
  the model keeps them in a heap and passes references.
\<close>

type_synonym ref = nat

datatype platform = Gcfv1 | Gcfv2

text \<open>
  \<^verbatim>\<open>backend.Triggered\<close>: exactly one trigger per endpoint. The type guards
  \<^verbatim>\<open>backend.isHttpsTriggered\<close>, \<^verbatim>\<open>isCallableTriggered\<close>, ... test which one is present. The
  optional \<^verbatim>\<open>invoker\<close> lists and the blocking trigger's \<^verbatim>\<open>eventType\<close> are the only trigger
  fields the Fabricator reads.
\<close>

datatype triggered =
    HttpsTriggered "string list option"
  | CallableTriggered
  | ScheduleTriggered
  | EventTriggered
  | TaskQueueTriggered "string list option"
  | BlockingTriggered string

record endpoint =
  project :: string
  region :: string
  id' :: string
  platform :: platform
  trigger :: triggered
  availableMemoryMb :: "int option"
  concurrency :: "int option"
  labels :: "string \<rightharpoonup> string"
  uri :: "string option"

text \<open>
  Whatever can be thrown. \<^verbatim>\<open>ApiError\<close> stands for an error of a collaborator (with its
  optional HTTP status), \<^verbatim>\<open>PlainError\<close> for \<^verbatim>\<open>new Error(message)\<close>, \<^verbatim>\<open>FirebaseError\<close> for
  \<^verbatim>\<open>new FirebaseError(message, {original})\<close>; the last two are the reporter's classes, with
  the operation type as the string literal the code passes.
\<close>

datatype err =
    ApiError "int option" string
  | PlainError string
  | FirebaseError string err
  | DeploymentError ref string err
  | AbortedDeploymentError ref

fun status :: "err \<Rightarrow> int option" where
  "status (ApiError st msg) = st"
| "status e = None"

record deployResult =
  endpoint :: ref
  durationMs :: int
  error :: "err option"

record summary =
  totalTime :: int
  results :: "deployResult list"

record endpointUpdate =
  u_endpoint :: ref
  deleteAndRecreate :: "ref option"

record changeset =
  endpointsToCreate :: "ref list"
  endpointsToUpdate :: "endpointUpdate list"
  endpointsToDelete :: "ref list"

text \<open>A deployment plan is read only through \<^verbatim>\<open>Object.values(plan)\<close>: the list of its changesets.\<close>

type_synonym deploymentPlan = "changeset list"

subsection \<open>Provider-native descriptors\<close>

record httpsTriggerV1 =
  securityLevel :: "string option"
  url :: "string option"

record cloudFunction =
  cf_name :: string
  httpsTrigger :: "httpsTriggerV1 option"
  sourceToken :: "string option"

record eventTriggerV2 =
  pubsubTopic :: "string option"

record serviceConfig =
  sc_uri :: "string option"
  service :: "string option"

record cloudFunctionV2 =
  cf2_name :: string
  eventTrigger :: "eventTriggerV2 option"
  serviceConfig :: serviceConfig

text \<open>
  A Cloud Run service, flattened: \<^verbatim>\<open>status\<close>, \<^verbatim>\<open>spec.template.metadata.name\<close> and
  \<^verbatim>\<open>spec.template.spec.containerConcurrency\<close>.
\<close>

record runService =
  svc_status :: "string option"
  templateName :: "string option"
  containerConcurrency :: "int option"

record job =
  job_name :: string
  topicName :: string

record queue =
  queue_name :: string

datatype origin = FunctionsOrigin | FunctionsV2Origin

datatype apiVersion = GcfApiVersion | GcfV2ApiVersion

record pollerOptions =
  apiOrigin :: origin
  apiVersion :: apiVersion
  masterTimeout :: nat
  maxBackoff :: nat
  pollerName :: string
  operationResourceName :: string
  onPoll :: bool

text \<open>One poll of a long-running operation, as far as \<^verbatim>\<open>onPoll\<close> can see it.\<close>

record tick =
  reported :: "string option"
  op_done :: bool

subsection \<open>Calls to the collaborators and the trace\<close>

datatype call =
    GcfCreateFunction cloudFunction
  | GcfUpdateFunction cloudFunction
  | GcfDeleteFunction string
  | GcfSetInvokerCreate string string "string list"
  | GcfSetInvokerUpdate string string "string list"
  | GcfV2CreateFunction cloudFunctionV2
  | GcfV2UpdateFunction cloudFunctionV2
  | GcfV2DeleteFunction string
  | RunSetInvokerCreate string "string option" "string list"
  | RunSetInvokerUpdate string "string option" "string list"
  | RunGetService "string option"
  | RunReplaceService "string option" runService
  | PubsubCreateTopic string
  | PubsubDeleteTopic string
  | SchedulerCreateOrReplaceJob job
  | SchedulerDeleteJob string
  | CloudtasksUpsertQueue queue
  | CloudtasksSetEnqueuer string "string list"
  | CloudtasksUpdateQueue string string
  | RegisterTrigger endpoint bool
  | UnregisterTrigger endpoint
  | PollOperation pollerOptions

text \<open>
  The trace holds, in order, every call issued to a collaborator and every poll handed to
  an \<^verbatim>\<open>onPoll\<close> hook.
\<close>

datatype event = Issued call | Polled tick

text \<open>
  Modelled from the spec: \<^verbatim>\<open>SourceTokenScraper\<close> (module \<^verbatim>\<open>./sourceTokenScraper\<close> is not
  among the sources). Section 3: a single pending token future per changeset; the first
  operation to report a token resolves it; later operations read the same resolved value.
  Section 2: the token comes from the first completed build operation. Section 9: a
  single-assignment future with a write-once setter for the poll hook and a read accessor
  for later operations. \<^verbatim>\<open>token = None\<close> is the pending future and \<^verbatim>\<open>token = Some tok\<close> the
  future resolved with \<open>tok\<close>, which is \<^verbatim>\<open>None\<close> for \<^verbatim>\<open>undefined\<close>. The poll hook resolves the
  pending future at the first poll that reports a token or whose operation is done, with
  what that poll reports; a resolved future is never written again. \<^verbatim>\<open>firstCall\<close> holds until
  the token has been asked for: the operation that asks first is the one whose polls are
  scraped, so it does not wait.
\<close>

record scraper =
  firstCall :: bool
  token :: "string option option"

definition newScraper :: scraper where
  "newScraper = \<lparr>firstCall = True, token = None\<rparr>"

definition poller :: "tick \<Rightarrow> scraper \<Rightarrow> scraper" where
  "poller t sc =
     (case token sc of
        Some tok \<Rightarrow> sc
      | None \<Rightarrow> if reported t \<noteq> None \<or> op_done t then sc\<lparr>token := Some (reported t)\<rparr> else sc)"

subsection \<open>State, environment and promises\<close>

text \<open>
  \<^verbatim>\<open>triggerQueue\<close> is the Fabricator's promise chain: \<^verbatim>\<open>None\<close> when its last link is
  fulfilled, \<^verbatim>\<open>Some e\<close> when it is rejected with \<open>e\<close>. \<^verbatim>\<open>scraper\<close> is the scraper of the
  changeset being applied.
\<close>

record state =
  trace :: "event list"
  heap :: "ref \<Rightarrow> endpoint"
  triggerQueue :: "err option"
  scraper :: scraper

text \<open>
  The modules the Fabricator imports are not among the sources. Their constants and pure
  helpers are parameters, and so is the outside world: each collaborator answers a call
  as a function of the trace so far. \<^verbatim>\<open>now\<close> is the clock a \<^verbatim>\<open>Timer\<close> reads when it is
  created and when it is stopped; \<^verbatim>\<open>respond\<close> answers the calls that return nothing;
  \<^verbatim>\<open>startOperation\<close> answers a create, update or delete of a function with the name of its
  long-running operation; \<^verbatim>\<open>pollV1\<close>, \<^verbatim>\<open>pollV2\<close> and \<^verbatim>\<open>pollVoid\<close> are
  \<^verbatim>\<open>poller.pollOperation\<close> at its three result types, the first with the polls it hands
  to \<^verbatim>\<open>onPoll\<close>; \<^verbatim>\<open>getService\<close> answers \<^verbatim>\<open>run.getService\<close>. Numbers are integers here:
  JavaScript's fractions and \<^verbatim>\<open>NaN\<close> are left out.
\<close>

record env =
  DEFAULT_MEMORY :: int
  MIN_MEMORY_FOR_CONCURRENCY :: int
  AUTH_BLOCKING_EVENTS :: "string list"
  deploymentTool_labels :: "string \<rightharpoonup> string"
  functionName :: "endpoint \<Rightarrow> string"
  gcf_functionFromEndpoint :: "endpoint \<Rightarrow> string \<Rightarrow> cloudFunction"
  gcfV2_functionFromEndpoint :: "endpoint \<Rightarrow> string option \<Rightarrow> cloudFunctionV2"
  jobFromEndpoint :: "endpoint \<Rightarrow> string \<Rightarrow> job"
  queueFromEndpoint :: "endpoint \<Rightarrow> queue"
  queueNameForEndpoint :: "endpoint \<Rightarrow> string"
  now :: "event list \<Rightarrow> int"
  respond :: "event list \<Rightarrow> call \<Rightarrow> err option"
  startOperation :: "event list \<Rightarrow> call \<Rightarrow> err + string"
  pollV1 :: "event list \<Rightarrow> pollerOptions \<Rightarrow> tick list \<times> (err + cloudFunction)"
  pollV2 :: "event list \<Rightarrow> pollerOptions \<Rightarrow> err + cloudFunctionV2"
  pollVoid :: "event list \<Rightarrow> pollerOptions \<Rightarrow> err option"
  getService :: "event list \<Rightarrow> string option \<Rightarrow> err + runService"

record fabricator =
  sourceUrl :: "string option"
  storage :: "(string \<rightharpoonup> string) option"
  appEngineLocation :: string

text \<open>
  An async function that never waits for the scraper's token, run until its promise
  settles: \<open>Inl\<close> is a rejection. Every call to a collaborator is one step, recorded in the
  trace with its answer, and the function runs from its first step to its last without
  another operation in between.
\<close>

type_synonym 'a promise = "state \<Rightarrow> (err + 'a) \<times> state"

definition resolve :: "'a \<Rightarrow> 'a promise" where
  "resolve x s = (Inr x, s)"

definition reject :: "err \<Rightarrow> 'a promise" where
  "reject e s = (Inl e, s)"

definition await :: "'a promise \<Rightarrow> ('a \<Rightarrow> 'b promise) \<Rightarrow> 'b promise" where
  "await m f s = (case m s of (Inl e, s') \<Rightarrow> (Inl e, s') | (Inr x, s') \<Rightarrow> f x s')"

definition catch :: "'a promise \<Rightarrow> (err \<Rightarrow> 'a promise) \<Rightarrow> 'a promise" where
  "catch m h s = (case m s of (Inl e, s') \<Rightarrow> h e s' | (Inr x, s') \<Rightarrow> (Inr x, s'))"

definition rethrowAs :: "ref \<Rightarrow> string \<Rightarrow> err \<Rightarrow> 'a promise" where
  "rethrowAs r op e = reject (DeploymentError r op e)"

text \<open>
  Modelled from the spec: \<^verbatim>\<open>Executor.run\<close> (module \<^verbatim>\<open>./executor\<close> is not among the
  sources) runs the task it is given and settles as the task does; its queueing and retry
  policy are inside the collaborator, whose answer here is the final one.
\<close>

definition run :: "'a promise \<Rightarrow> 'a promise" where
  "run fn = fn"

definition record_event :: "event \<Rightarrow> state \<Rightarrow> state" where
  "record_event ev s = s\<lparr>trace := trace s @ [ev]\<rparr>"

definition issue :: "env \<Rightarrow> call \<Rightarrow> unit promise" where
  "issue E c s =
     (case respond E (trace s) c of
        Some e \<Rightarrow> (Inl e, record_event (Issued c) s)
      | None \<Rightarrow> (Inr (), record_event (Issued c) s))"

definition issueOperation :: "env \<Rightarrow> call \<Rightarrow> string promise" where
  "issueOperation E c s = (startOperation E (trace s) c, record_event (Issued c) s)"

definition run_getService :: "env \<Rightarrow> string option \<Rightarrow> runService promise" where
  "run_getService E serviceName s =
     (getService E (trace s) serviceName, record_event (Issued (RunGetService serviceName)) s)"

definition feed :: "tick \<Rightarrow> state \<Rightarrow> state" where
  "feed t s = (record_event (Polled t) s)\<lparr>scraper := poller t (scraper s)\<rparr>"

definition pollOperationV1 :: "env \<Rightarrow> pollerOptions \<Rightarrow> cloudFunction promise" where
  "pollOperationV1 E opts s =
     (case pollV1 E (trace s) opts of
        (ticks, res) \<Rightarrow>
          (res, (if onPoll opts then fold feed ticks else (\<lambda>s'. s'))
                  (record_event (Issued (PollOperation opts)) s)))"

definition pollOperationV2 :: "env \<Rightarrow> pollerOptions \<Rightarrow> cloudFunctionV2 promise" where
  "pollOperationV2 E opts s =
     (pollV2 E (trace s) opts, record_event (Issued (PollOperation opts)) s)"

definition pollOperationVoid :: "env \<Rightarrow> pollerOptions \<Rightarrow> unit promise" where
  "pollOperationVoid E opts s =
     (case pollVoid E (trace s) opts of
        Some e \<Rightarrow> (Inl e, record_event (Issued (PollOperation opts)) s)
      | None \<Rightarrow> (Inr (), record_event (Issued (PollOperation opts)) s))"

definition getEndpoint :: "ref \<Rightarrow> endpoint promise" where
  "getEndpoint r s = (Inr (heap s r), s)"

definition setLabels :: "ref \<Rightarrow> (string \<rightharpoonup> string) \<Rightarrow> unit promise" where
  "setLabels r l s = (Inr (), s\<lparr>heap := (heap s)(r := (heap s r)\<lparr>labels := l\<rparr>)\<rparr>)"

definition setUri :: "ref \<Rightarrow> string option \<Rightarrow> unit promise" where
  "setUri r u s = (Inr (), s\<lparr>heap := (heap s)(r := (heap s r)\<lparr>uri := u\<rparr>)\<rparr>)"

text \<open>
  Modelled from the spec: \<^verbatim>\<open>scraper.tokenPromise()\<close> hands out the promise to await. The
  first caller of a changeset gets a promise that is already resolved with the empty
  token; every later caller gets the shared promise, which is pending until the poll hook
  resolves it.
\<close>

datatype awaited = Resolved "string option" | Shared

definition tokenPromise :: "state \<Rightarrow> awaited \<times> state" where
  "tokenPromise s =
     (if firstCall (scraper s)
      then (Resolved None, s\<lparr>scraper := (scraper s)\<lparr>firstCall := False\<rparr>\<rparr>)
      else (Shared, s))"

text \<open>
  An async function that awaits the scraper's token, which it does at most once (line 827
  or line 973): it runs until it settles or until it reaches that \<^verbatim>\<open>await\<close>. There it stops
  with the promise it awaits and with what it does once it is given the token. The rest
  of the changeset decides when, and whether, it continues.
\<close>

datatype 'a outcome =
    Settled "err + 'a"
  | AwaitsToken awaited "string option \<Rightarrow> state \<Rightarrow> (err + 'a) \<times> state"

type_synonym 'a task = "state \<Rightarrow> 'a outcome \<times> state"

definition asTask :: "'a promise \<Rightarrow> 'a task" where
  "asTask m s = (case m s of (res, s') \<Rightarrow> (Settled res, s'))"

definition awaitToken :: "(string option \<Rightarrow> 'a promise) \<Rightarrow> 'a task" where
  "awaitToken k s = (case tokenPromise s of (p, s') \<Rightarrow> (AwaitsToken p k, s'))"

text \<open>\<^verbatim>\<open>await\<close> of a function that never waits for the token, inside one that may.\<close>

definition await_then :: "'a promise \<Rightarrow> ('a \<Rightarrow> 'b task) \<Rightarrow> 'b task" where
  "await_then m f s = (case m s of (Inl e, s') \<Rightarrow> (Settled (Inl e), s') | (Inr x, s') \<Rightarrow> f x s')"

text \<open>
  \<^verbatim>\<open>await\<close> of a function that may wait for the token, followed by code that never does:
  when the awaited function stops at the token, what follows joins what it does afterwards.
\<close>

definition await_task :: "'a task \<Rightarrow> ('a \<Rightarrow> 'b promise) \<Rightarrow> 'b task" where
  "await_task m f s =
     (case m s of
        (Settled (Inl e), s') \<Rightarrow> (Settled (Inl e), s')
      | (Settled (Inr x), s') \<Rightarrow> asTask (f x) s'
      | (AwaitsToken p k, s') \<Rightarrow> (AwaitsToken p (\<lambda>tok. await (k tok) f), s'))"

section \<open>The Fabricator\<close>

definition gcfV1PollerOptions :: "string \<Rightarrow> string \<Rightarrow> bool \<Rightarrow> pollerOptions" where
  "gcfV1PollerOptions name opName hook =
     \<lparr>apiOrigin = FunctionsOrigin, apiVersion = GcfApiVersion,
      masterTimeout = 25 * 60 * 1000, maxBackoff = 10000,
      pollerName = name, operationResourceName = opName, onPoll = hook\<rparr>"

definition gcfV2PollerOptions :: "string \<Rightarrow> string \<Rightarrow> pollerOptions" where
  "gcfV2PollerOptions name opName =
     \<lparr>apiOrigin = FunctionsV2Origin, apiVersion = GcfV2ApiVersion,
      masterTimeout = 25 * 60 * 1000, maxBackoff = 10000,
      pollerName = name, operationResourceName = opName, onPoll = False\<rparr>"

definition DEFAULT_GCFV2_CONCURRENCY :: int where
  "DEFAULT_GCFV2_CONCURRENCY = 80"

text \<open>\<^verbatim>\<open>setConcurrency\<close>, lines 1085 to 1104.\<close>

definition setConcurrency :: "env \<Rightarrow> ref \<Rightarrow> string option \<Rightarrow> int \<Rightarrow> unit promise" where
  "setConcurrency E r serviceName c =
     catch
       (run
         (await (run_getService E serviceName) (\<lambda>svc.
            if containerConcurrency svc = Some c then resolve ()
            else issue E (RunReplaceService serviceName
                   (svc\<lparr>svc_status := None, templateName := None,
                        containerConcurrency := Some c\<rparr>)))))
       (rethrowAs r ''set concurrency'')"

text \<open>
  \<^verbatim>\<open>createV1Function\<close>, lines 815 to 879, in three parts: the submission of lines 816 to
  827 (precondition, descriptor, \<^verbatim>\<open>await scraper.tokenPromise()\<close>), the build of lines 827 to
  840, which runs once the token is there (the token goes into the descriptor, then the
  create call, the poll with the scraper's hook, \<^verbatim>\<open>uri\<close>), and the invoker policy of lines
  841 to 878.
\<close>

definition createV1Function_invoker :: "env \<Rightarrow> ref \<Rightarrow> unit promise" where
  "createV1Function_invoker E r =
     await (getEndpoint r) (\<lambda>ep.
       case trigger ep of
         HttpsTriggered given \<Rightarrow>
           (let invoker = (case given of Some i \<Rightarrow> i | None \<Rightarrow> [''public'']) in
            if ''private'' \<notin> set invoker
            then catch
                   (run (issue E (GcfSetInvokerCreate (project ep) (functionName E ep) invoker)))
                   (rethrowAs r ''set invoker'')
            else resolve ())
       | CallableTriggered \<Rightarrow>
           catch
             (run (issue E (GcfSetInvokerCreate (project ep) (functionName E ep) [''public''])))
             (rethrowAs r ''set invoker'')
       | TaskQueueTriggered given \<Rightarrow>
           (case given of
              Some invoker \<Rightarrow>
                if ''private'' \<notin> set invoker
                then catch
                       (run (issue E
                          (GcfSetInvokerCreate (project ep) (functionName E ep) invoker)))
                       (rethrowAs r ''set invoker'')
                else resolve ()
            | None \<Rightarrow> resolve ())
       | BlockingTriggered eventType \<Rightarrow>
           if eventType \<in> set (AUTH_BLOCKING_EVENTS E)
           then catch
                  (run (issue E
                     (GcfSetInvokerCreate (project ep) (functionName E ep) [''public''])))
                  (rethrowAs r ''set invoker'')
           else resolve ()
       | ScheduleTriggered \<Rightarrow> resolve ()
       | EventTriggered \<Rightarrow> resolve ())"

definition requireHttps :: "cloudFunction \<Rightarrow> cloudFunction" where
  "requireHttps apiFunction =
     (case httpsTrigger apiFunction of
        Some t \<Rightarrow> apiFunction\<lparr>httpsTrigger := Some (t\<lparr>securityLevel := Some ''SECURE_ALWAYS''\<rparr>)\<rparr>
      | None \<Rightarrow> apiFunction)"

definition createV1Function_build ::
  "env \<Rightarrow> ref \<Rightarrow> cloudFunction \<Rightarrow> string option \<Rightarrow> unit promise" where
  "createV1Function_build E r apiFunction tok =
     await (getEndpoint r) (\<lambda>ep.
     await
       (catch
         (run
           (await
             (issueOperation E (GcfCreateFunction (apiFunction\<lparr>sourceToken := tok\<rparr>)))
             (\<lambda>opName.
                pollOperationV1 E
                  (gcfV1PollerOptions (''create-'' @ region ep @ ''-'' @ id' ep) opName True))))
         (rethrowAs r ''create''))
       (\<lambda>resultFunction.
          setUri r (case httpsTrigger resultFunction of None \<Rightarrow> None | Some t \<Rightarrow> url t)))"

definition createV1Function_submit :: "env \<Rightarrow> fabricator \<Rightarrow> ref \<Rightarrow> unit task" where
  "createV1Function_submit E F r =
     (case sourceUrl F of
        None \<Rightarrow> asTask (reject (PlainError ''Precondition failed''))
      | Some u \<Rightarrow>
          if u = [] then asTask (reject (PlainError ''Precondition failed''))
          else
            await_then (getEndpoint r) (\<lambda>ep.
              awaitToken
                (createV1Function_build E r (requireHttps (gcf_functionFromEndpoint E ep u)))))"

definition createV1Function :: "env \<Rightarrow> fabricator \<Rightarrow> ref \<Rightarrow> unit task" where
  "createV1Function E F r =
     await_task (createV1Function_submit E F r) (\<lambda>_. createV1Function_invoker E r)"

text \<open>
  \<^verbatim>\<open>createV2Function\<close>, lines 881 to 965, in three parts: the submission of lines 882 to
  923 (precondition, descriptor, topic, create call, poll, \<^verbatim>\<open>uri\<close>), which yields
  \<^verbatim>\<open>serviceName\<close>, the invoker policy of lines 924 to 955 and the concurrency of lines 957
  to 964.
\<close>

definition createTopic :: "env \<Rightarrow> ref \<Rightarrow> string \<Rightarrow> unit promise" where
  "createTopic E r topic =
     catch
       (run
         (catch (issue E (PubsubCreateTopic topic))
            (\<lambda>e. if status e = Some 409 then resolve ()
                 else reject (FirebaseError ''Unexpected error creating Pub/Sub topic'' e))))
       (rethrowAs r ''create topic'')"

definition createV2Function_invoker :: "env \<Rightarrow> ref \<Rightarrow> string option \<Rightarrow> unit promise" where
  "createV2Function_invoker E r serviceName =
     await (getEndpoint r) (\<lambda>ep.
       case trigger ep of
         HttpsTriggered given \<Rightarrow>
           (let invoker = (case given of Some i \<Rightarrow> i | None \<Rightarrow> [''public'']) in
            if ''private'' \<notin> set invoker
            then catch
                   (run (issue E (RunSetInvokerCreate (project ep) serviceName invoker)))
                   (rethrowAs r ''set invoker'')
            else resolve ())
       | CallableTriggered \<Rightarrow>
           catch
             (run (issue E (RunSetInvokerCreate (project ep) serviceName [''public''])))
             (rethrowAs r ''set invoker'')
       | TaskQueueTriggered given \<Rightarrow>
           (case given of
              Some invoker \<Rightarrow>
                if ''private'' \<notin> set invoker
                then catch
                       (run (issue E (RunSetInvokerCreate (project ep) serviceName invoker)))
                       (rethrowAs r ''set invoker'')
                else resolve ()
            | None \<Rightarrow> resolve ())
       | BlockingTriggered eventType \<Rightarrow>
           if eventType \<in> set (AUTH_BLOCKING_EVENTS E)
           then catch
                  (run (issue E (RunSetInvokerCreate (project ep) serviceName [''public''])))
                  (rethrowAs r ''set invoker'')
           else resolve ()
       | ScheduleTriggered \<Rightarrow> resolve ()
       | EventTriggered \<Rightarrow> resolve ())"

definition createV2Function_concurrency :: "env \<Rightarrow> ref \<Rightarrow> string option \<Rightarrow> unit promise" where
  "createV2Function_concurrency E r serviceName =
     await (getEndpoint r) (\<lambda>ep.
       let mem = (case availableMemoryMb ep of
                    Some m \<Rightarrow> if m = 0 then DEFAULT_MEMORY E else m
                  | None \<Rightarrow> DEFAULT_MEMORY E) in
       if mem \<ge> MIN_MEMORY_FOR_CONCURRENCY E \<and> concurrency ep \<noteq> Some 1
       then setConcurrency E r serviceName
              (case concurrency ep of
                 Some c \<Rightarrow> if c = 0 then DEFAULT_GCFV2_CONCURRENCY else c
               | None \<Rightarrow> DEFAULT_GCFV2_CONCURRENCY)
       else resolve ())"

definition createV2Function_submit ::
  "env \<Rightarrow> fabricator \<Rightarrow> ref \<Rightarrow> string option promise" where
  "createV2Function_submit E F r =
     (case storage F of
        None \<Rightarrow> reject (PlainError ''Precondition failed'')
      | Some st \<Rightarrow>
          await (getEndpoint r) (\<lambda>ep.
            let apiFunction = gcfV2_functionFromEndpoint E ep (st (region ep)) in
            await
              (case eventTrigger apiFunction of
                 None \<Rightarrow> resolve ()
               | Some t \<Rightarrow>
                   (case pubsubTopic t of
                      None \<Rightarrow> resolve ()
                    | Some topic \<Rightarrow> if topic = [] then resolve () else createTopic E r topic))
              (\<lambda>_.
            await
              (catch
                (run
                  (await (issueOperation E (GcfV2CreateFunction apiFunction))
                    (\<lambda>opName.
                       pollOperationV2 E
                         (gcfV2PollerOptions (''create-'' @ region ep @ ''-'' @ id' ep) opName))))
                (rethrowAs r ''create''))
              (\<lambda>resultFunction.
                 await (setUri r (sc_uri (serviceConfig resultFunction))) (\<lambda>_.
                 resolve (service (serviceConfig resultFunction)))))))"

definition createV2Function :: "env \<Rightarrow> fabricator \<Rightarrow> ref \<Rightarrow> unit promise" where
  "createV2Function E F r =
     await (createV2Function_submit E F r) (\<lambda>serviceName.
     await (createV2Function_invoker E r serviceName) (\<lambda>_.
     createV2Function_concurrency E r serviceName))"

text \<open>
  \<^verbatim>\<open>updateV1Function\<close>, lines 967 to 1003, and \<^verbatim>\<open>updateV2Function\<close>, lines 1005 to 1053,
  in the same parts: submission (lines 968 to 973, and 1006 to 1032), for the first the
  build that follows the token (lines 973 to 986), invoker (lines 987 to 1002, and 1033 to
  1048) and, for the second, concurrency (lines 1050 to 1052).
\<close>

definition update_invoker :: "env \<Rightarrow> endpoint \<Rightarrow> string list option" where
  "update_invoker E ep =
     (case trigger ep of
        HttpsTriggered given \<Rightarrow> given
      | TaskQueueTriggered given \<Rightarrow> given
      | BlockingTriggered eventType \<Rightarrow>
          if eventType \<in> set (AUTH_BLOCKING_EVENTS E) then Some [''public''] else None
      | CallableTriggered \<Rightarrow> None
      | ScheduleTriggered \<Rightarrow> None
      | EventTriggered \<Rightarrow> None)"

definition updateV1Function_build ::
  "env \<Rightarrow> ref \<Rightarrow> cloudFunction \<Rightarrow> string option \<Rightarrow> unit promise" where
  "updateV1Function_build E r apiFunction tok =
     await (getEndpoint r) (\<lambda>ep.
     await
       (catch
         (run
           (await
             (issueOperation E (GcfUpdateFunction (apiFunction\<lparr>sourceToken := tok\<rparr>)))
             (\<lambda>opName.
                pollOperationV1 E
                  (gcfV1PollerOptions (''update-'' @ region ep @ ''-'' @ id' ep) opName True))))
         (rethrowAs r ''update''))
       (\<lambda>resultFunction.
          setUri r (case httpsTrigger resultFunction of None \<Rightarrow> None | Some t \<Rightarrow> url t)))"

definition updateV1Function_submit :: "env \<Rightarrow> fabricator \<Rightarrow> ref \<Rightarrow> unit task" where
  "updateV1Function_submit E F r =
     (case sourceUrl F of
        None \<Rightarrow> asTask (reject (PlainError ''Precondition failed''))
      | Some u \<Rightarrow>
          if u = [] then asTask (reject (PlainError ''Precondition failed''))
          else
            await_then (getEndpoint r) (\<lambda>ep.
              awaitToken (updateV1Function_build E r (gcf_functionFromEndpoint E ep u))))"

definition updateV1Function_invoker :: "env \<Rightarrow> ref \<Rightarrow> unit promise" where
  "updateV1Function_invoker E r =
     await (getEndpoint r) (\<lambda>ep.
       case update_invoker E ep of
         Some invoker \<Rightarrow>
           catch
             (run (issue E (GcfSetInvokerUpdate (project ep) (functionName E ep) invoker)))
             (rethrowAs r ''set invoker'')
       | None \<Rightarrow> resolve ())"

definition updateV1Function :: "env \<Rightarrow> fabricator \<Rightarrow> ref \<Rightarrow> unit task" where
  "updateV1Function E F r =
     await_task (updateV1Function_submit E F r) (\<lambda>_. updateV1Function_invoker E r)"

definition updateV2Function_invoker :: "env \<Rightarrow> ref \<Rightarrow> string option \<Rightarrow> unit promise" where
  "updateV2Function_invoker E r serviceName =
     await (getEndpoint r) (\<lambda>ep.
       case update_invoker E ep of
         Some invoker \<Rightarrow>
           catch
             (run (issue E (RunSetInvokerUpdate (project ep) serviceName invoker)))
             (rethrowAs r ''set invoker'')
       | None \<Rightarrow> resolve ())"

definition updateV2Function_concurrency :: "env \<Rightarrow> ref \<Rightarrow> string option \<Rightarrow> unit promise" where
  "updateV2Function_concurrency E r serviceName =
     await (getEndpoint r) (\<lambda>ep.
       case concurrency ep of
         Some c \<Rightarrow> if c = 0 then resolve () else setConcurrency E r serviceName c
       | None \<Rightarrow> resolve ())"

definition dropPubsubTopic :: "cloudFunctionV2 \<Rightarrow> cloudFunctionV2" where
  "dropPubsubTopic apiFunction =
     (case eventTrigger apiFunction of
        None \<Rightarrow> apiFunction
      | Some t \<Rightarrow>
          (case pubsubTopic t of
             None \<Rightarrow> apiFunction
           | Some topic \<Rightarrow>
               if topic = [] then apiFunction
               else apiFunction\<lparr>eventTrigger := Some (t\<lparr>pubsubTopic := None\<rparr>)\<rparr>))"

definition updateV2Function_submit ::
  "env \<Rightarrow> fabricator \<Rightarrow> ref \<Rightarrow> string option promise" where
  "updateV2Function_submit E F r =
     (case storage F of
        None \<Rightarrow> reject (PlainError ''Precondition failed'')
      | Some st \<Rightarrow>
          await (getEndpoint r) (\<lambda>ep.
            await
              (catch
                (run
                  (await
                    (issueOperation E
                       (GcfV2UpdateFunction
                          (dropPubsubTopic (gcfV2_functionFromEndpoint E ep (st (region ep))))))
                    (\<lambda>opName.
                       pollOperationV2 E
                         (gcfV2PollerOptions (''update-'' @ region ep @ ''-'' @ id' ep) opName))))
                (rethrowAs r ''update''))
              (\<lambda>resultFunction.
                 await (setUri r (sc_uri (serviceConfig resultFunction))) (\<lambda>_.
                 resolve (service (serviceConfig resultFunction))))))"

definition updateV2Function :: "env \<Rightarrow> fabricator \<Rightarrow> ref \<Rightarrow> unit promise" where
  "updateV2Function E F r =
     await (updateV2Function_submit E F r) (\<lambda>serviceName.
     await (updateV2Function_invoker E r serviceName) (\<lambda>_.
     updateV2Function_concurrency E r serviceName))"

text \<open>\<^verbatim>\<open>deleteV1Function\<close> and \<^verbatim>\<open>deleteV2Function\<close>, lines 1055 to 1083.\<close>

definition deleteV1Function :: "env \<Rightarrow> ref \<Rightarrow> unit promise" where
  "deleteV1Function E r =
     await (getEndpoint r) (\<lambda>ep.
       catch
         (run
           (await (issueOperation E (GcfDeleteFunction (functionName E ep))) (\<lambda>opName.
              pollOperationVoid E
                (gcfV1PollerOptions (''delete-'' @ region ep @ ''-'' @ id' ep) opName False))))
         (rethrowAs r ''delete''))"

definition deleteV2Function :: "env \<Rightarrow> ref \<Rightarrow> unit promise" where
  "deleteV2Function E r =
     await (getEndpoint r) (\<lambda>ep.
       catch
         (run
           (await (issueOperation E (GcfV2DeleteFunction (functionName E ep))) (\<lambda>opName.
              pollOperationVoid E
                (gcfV2PollerOptions (''delete-'' @ region ep @ ''-'' @ id' ep) opName))))
         (rethrowAs r ''delete''))"

text \<open>The trigger strategies, lines 1142 to 1219.\<close>

definition upsertScheduleV1 :: "env \<Rightarrow> fabricator \<Rightarrow> ref \<Rightarrow> unit promise" where
  "upsertScheduleV1 E F r =
     await (getEndpoint r) (\<lambda>ep.
       catch
         (run (issue E (SchedulerCreateOrReplaceJob (jobFromEndpoint E ep (appEngineLocation F)))))
         (rethrowAs r ''upsert schedule''))"

definition upsertScheduleV2 :: "ref \<Rightarrow> unit promise" where
  "upsertScheduleV2 r =
     reject (DeploymentError r ''upsert schedule'' (PlainError ''Not implemented''))"

definition upsertTaskQueue :: "env \<Rightarrow> ref \<Rightarrow> unit promise" where
  "upsertTaskQueue E r =
     await (getEndpoint r) (\<lambda>ep.
       await
         (catch (run (issue E (CloudtasksUpsertQueue (queueFromEndpoint E ep))))
            (rethrowAs r ''upsert task queue''))
         (\<lambda>_.
            case trigger ep of
              TaskQueueTriggered (Some invoker) \<Rightarrow>
                catch
                  (run (issue E
                     (CloudtasksSetEnqueuer (queue_name (queueFromEndpoint E ep)) invoker)))
                  (rethrowAs r ''set invoker'')
            | _ \<Rightarrow> resolve ()))"

text \<open>
  \<^verbatim>\<open>this.triggerQueue = this.triggerQueue.then(async () => {...}); return this.triggerQueue\<close>:
  \<^verbatim>\<open>then\<close> runs its callback only when the chain so far is fulfilled; on a rejected chain
  the new link is rejected with the same reason and the callback never runs. The new link
  becomes the chain.
\<close>

definition enqueue :: "unit promise \<Rightarrow> unit promise" where
  "enqueue fn s =
     (case triggerQueue s of
        Some e \<Rightarrow> (Inl e, s)
      | None \<Rightarrow>
          (case fn s of
             (Inl e, s') \<Rightarrow> (Inl e, s'\<lparr>triggerQueue := Some e\<rparr>)
           | (Inr x, s') \<Rightarrow> (Inr x, s')))"

definition registerBlockingTrigger :: "env \<Rightarrow> ref \<Rightarrow> bool \<Rightarrow> unit promise" where
  "registerBlockingTrigger E r update =
     enqueue
       (await (getEndpoint r) (\<lambda>ep.
          catch (run (issue E (RegisterTrigger ep update)))
            (rethrowAs r ''register blocking trigger'')))"

definition deleteScheduleV1 :: "env \<Rightarrow> fabricator \<Rightarrow> ref \<Rightarrow> unit promise" where
  "deleteScheduleV1 E F r =
     await (getEndpoint r) (\<lambda>ep.
       await
         (catch
            (run (issue E
               (SchedulerDeleteJob (job_name (jobFromEndpoint E ep (appEngineLocation F))))))
            (rethrowAs r ''delete schedule''))
         (\<lambda>_.
            catch
              (run (issue E
                 (PubsubDeleteTopic (topicName (jobFromEndpoint E ep (appEngineLocation F))))))
              (rethrowAs r ''delete topic'')))"

definition deleteScheduleV2 :: "ref \<Rightarrow> unit promise" where
  "deleteScheduleV2 r =
     reject (DeploymentError r ''delete schedule'' (PlainError ''Not implemented''))"

definition disableTaskQueue :: "env \<Rightarrow> ref \<Rightarrow> unit promise" where
  "disableTaskQueue E r =
     await (getEndpoint r) (\<lambda>ep.
       catch
         (run (issue E (CloudtasksUpdateQueue (queueNameForEndpoint E ep) ''DISABLED'')))
         (rethrowAs r ''disable task queue''))"

definition unregisterBlockingTrigger :: "env \<Rightarrow> ref \<Rightarrow> unit promise" where
  "unregisterBlockingTrigger E r =
     enqueue
       (await (getEndpoint r) (\<lambda>ep.
          catch (run (issue E (UnregisterTrigger ep)))
            (rethrowAs r ''unregister blocking trigger'')))"

text \<open>\<^verbatim>\<open>setTrigger\<close> and \<^verbatim>\<open>deleteTrigger\<close>, lines 1108 to 1140.\<close>

definition setTrigger :: "env \<Rightarrow> fabricator \<Rightarrow> ref \<Rightarrow> bool \<Rightarrow> unit promise" where
  "setTrigger E F r update =
     await (getEndpoint r) (\<lambda>ep.
       case trigger ep of
         ScheduleTriggered \<Rightarrow>
           (case platform ep of
              Gcfv1 \<Rightarrow> upsertScheduleV1 E F r
            | Gcfv2 \<Rightarrow> upsertScheduleV2 r)
       | TaskQueueTriggered given \<Rightarrow> upsertTaskQueue E r
       | BlockingTriggered eventType \<Rightarrow> registerBlockingTrigger E r update
       | HttpsTriggered given \<Rightarrow> resolve ()
       | CallableTriggered \<Rightarrow> resolve ()
       | EventTriggered \<Rightarrow> resolve ())"

definition deleteTrigger :: "env \<Rightarrow> fabricator \<Rightarrow> ref \<Rightarrow> unit promise" where
  "deleteTrigger E F r =
     await (getEndpoint r) (\<lambda>ep.
       case trigger ep of
         ScheduleTriggered \<Rightarrow>
           (case platform ep of
              Gcfv1 \<Rightarrow> deleteScheduleV1 E F r
            | Gcfv2 \<Rightarrow> deleteScheduleV2 r)
       | TaskQueueTriggered given \<Rightarrow> disableTaskQueue E r
       | BlockingTriggered eventType \<Rightarrow> unregisterBlockingTrigger E r
       | HttpsTriggered given \<Rightarrow> resolve ()
       | CallableTriggered \<Rightarrow> resolve ()
       | EventTriggered \<Rightarrow> resolve ())"

text \<open>\<^verbatim>\<open>createEndpoint\<close>, \<^verbatim>\<open>updateEndpoint\<close> and \<^verbatim>\<open>deleteEndpoint\<close>, lines 774 to 813.\<close>

definition mergeToolLabels :: "env \<Rightarrow> ref \<Rightarrow> unit promise" where
  "mergeToolLabels E r =
     await (getEndpoint r) (\<lambda>ep. setLabels r (labels ep ++ deploymentTool_labels E))"

definition createEndpoint :: "env \<Rightarrow> fabricator \<Rightarrow> ref \<Rightarrow> unit task" where
  "createEndpoint E F r =
     await_then (mergeToolLabels E r) (\<lambda>_.
     await_then (getEndpoint r) (\<lambda>ep.
     await_task
       (case platform ep of
          Gcfv1 \<Rightarrow> createV1Function E F r
        | Gcfv2 \<Rightarrow> asTask (createV2Function E F r))
       (\<lambda>_. setTrigger E F r False)))"

definition deleteEndpoint :: "env \<Rightarrow> fabricator \<Rightarrow> ref \<Rightarrow> unit promise" where
  "deleteEndpoint E F r =
     await (deleteTrigger E F r) (\<lambda>_.
     await (getEndpoint r) (\<lambda>ep.
       if platform ep = Gcfv1 then deleteV1Function E r else deleteV2Function E r))"

text \<open>
  An update that deletes and recreates (lines 789 to 793) awaits the calls of its delete
  before its create asks for the token, so it asks after every operation that was launched
  with it and asks at once. \<^verbatim>\<open>AwaitsDelete\<close> is an update that has stopped at line 790, with
  what it does from there; \<^verbatim>\<open>Begun\<close> is any other operation, which has run up to the token
  or to its end.
\<close>

datatype 'a begun = Begun "'a outcome" | AwaitsDelete "state \<Rightarrow> 'a outcome \<times> state"

definition asBegun :: "'a task \<Rightarrow> state \<Rightarrow> 'a begun \<times> state" where
  "asBegun m s = (case m s of (out, s') \<Rightarrow> (Begun out, s'))"

definition updateEndpoint ::
  "env \<Rightarrow> fabricator \<Rightarrow> endpointUpdate \<Rightarrow> state \<Rightarrow> unit begun \<times> state" where
  "updateEndpoint E F update s =
     (case mergeToolLabels E (u_endpoint update) s of
        (Inl e, s') \<Rightarrow> (Begun (Settled (Inl e)), s')
      | (Inr x, s') \<Rightarrow>
          (case deleteAndRecreate update of
             Some old \<Rightarrow>
               (AwaitsDelete
                  (await_then (deleteEndpoint E F old)
                     (\<lambda>_. createEndpoint E F (u_endpoint update))),
                s')
           | None \<Rightarrow>
               asBegun
                 (await_then (getEndpoint (u_endpoint update)) (\<lambda>ep.
                  await_task
                    (case platform ep of
                       Gcfv1 \<Rightarrow> updateV1Function E F (u_endpoint update)
                     | Gcfv2 \<Rightarrow> asTask (updateV2Function E F (u_endpoint update)))
                    (\<lambda>_. setTrigger E F (u_endpoint update) True)))
                 s'))"

text \<open>
  \<^verbatim>\<open>applyChangeset\<close>, lines 720 to 772. \<^verbatim>\<open>handle\<close> (lines 722 to 737) creates its timer when
  the operation is launched, catches whatever \<^verbatim>\<open>fn\<close> throws and, when \<^verbatim>\<open>fn\<close> has settled, stops
  the timer and pushes one result onto \<^verbatim>\<open>deployResults\<close>; the timer reads the clock when it is
  created and when it is stopped. \<^verbatim>\<open>logOpStart\<close> and \<^verbatim>\<open>logOpSuccess\<close> only print. A handled
  operation has pushed its result (\<^verbatim>\<open>Pushed\<close>), or is parked at the scraper's token with what
  it does, up to its push, once it is given the token (\<^verbatim>\<open>Parked\<close>), or is delayed by the
  delete of line 790, with what it does from there (\<^verbatim>\<open>Delayed\<close>).
\<close>

datatype handled =
    Pushed deployResult
  | Parked awaited "string option \<Rightarrow> state \<Rightarrow> deployResult \<times> state"

datatype launched = Launched handled | Delayed "state \<Rightarrow> handled \<times> state"

definition stop :: "env \<Rightarrow> ref \<Rightarrow> int \<Rightarrow> (err + unit) \<times> state \<Rightarrow> deployResult \<times> state" where
  "stop E r started settled =
     (case settled of
        (Inl e, s') \<Rightarrow>
          (\<lparr>endpoint = r, durationMs = now E (trace s') - started, error = Some e\<rparr>, s')
      | (Inr x, s') \<Rightarrow>
          (\<lparr>endpoint = r, durationMs = now E (trace s') - started, error = None\<rparr>, s'))"

definition caught :: "env \<Rightarrow> ref \<Rightarrow> int \<Rightarrow> unit outcome \<times> state \<Rightarrow> handled \<times> state" where
  "caught E r started out =
     (case out of
        (Settled res, s') \<Rightarrow> (Pushed (fst (stop E r started (res, s'))), s')
      | (AwaitsToken p k, s') \<Rightarrow> (Parked p (\<lambda>tok s''. stop E r started (k tok s'')), s'))"

definition handle ::
  "env \<Rightarrow> string \<Rightarrow> ref \<Rightarrow> (state \<Rightarrow> unit begun \<times> state) \<Rightarrow> state \<Rightarrow> launched \<times> state" where
  "handle E op r fn s =
     (case fn s of
        (Begun out, s') \<Rightarrow>
          (case caught E r (now E (trace s)) (out, s') of (h, s'') \<Rightarrow> (Launched h, s''))
      | (AwaitsDelete m, s') \<Rightarrow> (Delayed (\<lambda>s''. caught E r (now E (trace s)) (m s'')), s'))"

text \<open>
  The operations of one \<^verbatim>\<open>utils.allSettled\<close>: the results pushed so far, the operations
  parked at a token promise that is already resolved, with its value, those parked at the
  shared promise, and the delayed ones, each list in launch order.
\<close>

record batch =
  deployResults :: "deployResult list"
  ready :: "(string option \<times> (string option \<Rightarrow> state \<Rightarrow> deployResult \<times> state)) list"
  waiting :: "(string option \<Rightarrow> state \<Rightarrow> deployResult \<times> state) list"
  delayed :: "(state \<Rightarrow> handled \<times> state) list"

definition noted :: "handled \<Rightarrow> batch \<Rightarrow> batch" where
  "noted h b =
     (case h of
        Pushed res \<Rightarrow> b\<lparr>deployResults := deployResults b @ [res]\<rparr>
      | Parked (Resolved tok) k \<Rightarrow> b\<lparr>ready := ready b @ [(tok, k)]\<rparr>
      | Parked Shared k \<Rightarrow> b\<lparr>waiting := waiting b @ [k]\<rparr>)"

text \<open>A loop that launches one handled operation per element (lines 741 to 748, 765 to 768).\<close>

primrec launch ::
  "('a \<Rightarrow> state \<Rightarrow> launched \<times> state) \<Rightarrow> 'a list \<Rightarrow> batch \<Rightarrow> state \<Rightarrow> batch \<times> state" where
  "launch h [] b s = (b, s)"
| "launch h (x # xs) b s =
     (case h x s of
        (Launched l, s') \<Rightarrow> launch h xs (noted l b) s'
      | (Delayed m, s') \<Rightarrow> launch h xs (b\<lparr>delayed := delayed b @ [m]\<rparr>) s')"

primrec afterDeletes ::
  "(state \<Rightarrow> handled \<times> state) list \<Rightarrow> batch \<Rightarrow> state \<Rightarrow> batch \<times> state" where
  "afterDeletes [] b s = (b, s)"
| "afterDeletes (m # ms) b s = (case m s of (l, s') \<Rightarrow> afterDeletes ms (noted l b) s')"

primrec resume ::
  "(string option \<times> (string option \<Rightarrow> state \<Rightarrow> deployResult \<times> state)) list
     \<Rightarrow> deployResult list \<Rightarrow> state \<Rightarrow> deployResult list \<times> state" where
  "resume [] rs s = (rs, s)"
| "resume (tk # tks) rs s =
     (case snd tk (fst tk) s of (res, s') \<Rightarrow> resume tks (rs @ [res]) s')"

text \<open>
  \<^verbatim>\<open>await utils.allSettled(...)\<close> on the operations launched, in the order in which the model
  lets them proceed: the calls of one operation are answered one after the other, up to
  the point where it has to wait for another operation. First the delayed updates run
  their deletes and go on up to the token, or to their end; then the operations whose
  token promise is resolved continue to their end. If no operation waits for the shared
  promise, all have settled. Otherwise, when the shared promise has been resolved with
  \<open>tok\<close>, the waiting operations continue with \<open>tok\<close>, each to its end; when it is still
  pending, nothing is left that could resolve it: the waiting operations push no result
  and \<^verbatim>\<open>allSettled\<close> never settles, which is the value \<^verbatim>\<open>None\<close>.
\<close>

definition allSettled :: "batch \<Rightarrow> state \<Rightarrow> deployResult list option \<times> state" where
  "allSettled b s =
     (case afterDeletes (delayed b) b s of
        (b1, s1) \<Rightarrow>
          (case resume (ready b1) (deployResults b1) s1 of
             (rs2, s2) \<Rightarrow>
               (case waiting b1 of
                  [] \<Rightarrow> (Some rs2, s2)
                | k # ks \<Rightarrow>
                    (case token (scraper s2) of
                       None \<Rightarrow> (None, s2)
                     | Some tok \<Rightarrow>
                         (case resume (map (Pair tok) (waiting b1)) rs2 s2 of
                            (rs3, s3) \<Rightarrow> (Some rs3, s3))))))"

definition upserts ::
  "env \<Rightarrow> fabricator \<Rightarrow> changeset \<Rightarrow> state \<Rightarrow> deployResult list option \<times> state" where
  "upserts E F changes s =
     (case launch (\<lambda>r. handle E ''create'' r (asBegun (createEndpoint E F r)))
             (endpointsToCreate changes)
             \<lparr>deployResults = [], ready = [], waiting = [], delayed = []\<rparr> s of
        (b, s') \<Rightarrow>
          (case launch (\<lambda>u. handle E ''update'' (u_endpoint u) (updateEndpoint E F u))
                  (endpointsToUpdate changes) b s' of
             (b', s'') \<Rightarrow> allSettled b' s''))"

definition deletes ::
  "env \<Rightarrow> fabricator \<Rightarrow> changeset \<Rightarrow> deployResult list \<Rightarrow> state
     \<Rightarrow> deployResult list option \<times> state" where
  "deletes E F changes rs s =
     (case launch (\<lambda>r. handle E ''delete'' r (asBegun (asTask (deleteEndpoint E F r))))
             (endpointsToDelete changes)
             \<lparr>deployResults = rs, ready = [], waiting = [], delayed = []\<rparr> s of
        (b, s') \<Rightarrow> allSettled b s')"

definition aborted :: "ref \<Rightarrow> deployResult" where
  "aborted r = \<lparr>endpoint = r, durationMs = 0, error = Some (AbortedDeploymentError r)\<rparr>"

text \<open>
  A promise that may stay pending for ever: \<^verbatim>\<open>None\<close> when it never settles. A changeset
  whose upserts never settle never reaches line 753.
\<close>

type_synonym 'a pending = "state \<Rightarrow> (err + 'a) option \<times> state"

definition applyChangeset ::
  "env \<Rightarrow> fabricator \<Rightarrow> changeset \<Rightarrow> deployResult list pending" where
  "applyChangeset E F changes s =
     (case upserts E F changes (s\<lparr>scraper := newScraper\<rparr>) of
        (None, s') \<Rightarrow> (None, s')
      | (Some rs, s') \<Rightarrow>
          if find (\<lambda>res. error res \<noteq> None) rs \<noteq> None
          then (Some (Inr (rs @ map aborted (endpointsToDelete changes))), s')
          else
            (case deletes E F changes rs s' of
               (None, s'') \<Rightarrow> (None, s'')
             | (Some rs', s'') \<Rightarrow> (Some (Inr rs'), s'')))"

text \<open>
  \<^verbatim>\<open>applyPlan\<close>, lines 693 to 718. The changesets are applied one after the other, in the
  order of the plan. A changeset whose promise is rejected adds nothing to the summary;
  its reason goes to \<^verbatim>\<open>errs\<close>, which is only logged. A changeset whose promise never settles
  does not keep the others from running, but the \<^verbatim>\<open>utils.allSettled\<close> of line 704 then never
  settles, and nor does \<^verbatim>\<open>applyPlan\<close>.
\<close>

primrec deployChangesets ::
  "env \<Rightarrow> fabricator \<Rightarrow> changeset list \<Rightarrow> deployResult list \<times> err list \<Rightarrow> state
     \<Rightarrow> (deployResult list \<times> err list) option \<times> state" where
  "deployChangesets E F [] acc s = (Some acc, s)"
| "deployChangesets E F (changes # rest) acc s =
     (case applyChangeset E F changes s of
        (Some (Inr rs), s') \<Rightarrow> deployChangesets E F rest (fst acc @ rs, snd acc) s'
      | (Some (Inl e), s') \<Rightarrow> deployChangesets E F rest (fst acc, snd acc @ [e]) s'
      | (None, s') \<Rightarrow> (None, snd (deployChangesets E F rest acc s')))"

definition applyPlan :: "env \<Rightarrow> fabricator \<Rightarrow> deploymentPlan \<Rightarrow> summary pending" where
  "applyPlan E F plan s =
     (case deployChangesets E F plan ([], []) s of
        (None, s') \<Rightarrow> (None, s')
      | (Some (rs, errs), s') \<Rightarrow>
          (Some (Inr \<lparr>totalTime = now E (trace s') - now E (trace s), results = rs\<rparr>), s'))"

section \<open>Vocabulary of the properties\<close>

text \<open>The events an operation adds to the trace when it is run from state \<open>s\<close>.\<close>

definition issuedBy :: "(state \<Rightarrow> 'a \<times> state) \<Rightarrow> state \<Rightarrow> event list" where
  "issuedBy m s = drop (length (trace s)) (trace (snd (m s)))"

text \<open>
  What an operation that was launched in state \<open>s0\<close> does when it continues with the token
  \<open>tok\<close>: the code after its \<^verbatim>\<open>await scraper.tokenPromise()\<close>. An operation that settled
  before it asked for the token has nothing left to do and keeps its outcome.
\<close>

definition resumed :: "'a task \<Rightarrow> state \<Rightarrow> string option \<Rightarrow> 'a promise" where
  "resumed m s0 tok =
     (case fst (m s0) of
        Settled res \<Rightarrow> (\<lambda>s. (res, s))
      | AwaitsToken p k \<Rightarrow> k tok)"

text \<open>
  An operation, started in a state with \<open>C\<close>, ends in a state with \<open>D\<close> and rejects only
  within \<open>W\<close>; it maintains \<open>I\<close> when it does so from \<open>I\<close> to \<open>I\<close>.
\<close>

definition yields ::
  "(state \<Rightarrow> bool) \<Rightarrow> (err \<Rightarrow> bool) \<Rightarrow> (state \<Rightarrow> bool) \<Rightarrow> 'a promise \<Rightarrow> bool" where
  "yields C W D m =
     (\<forall>s. C s \<longrightarrow> D (snd (m s)) \<and> (case fst (m s) of Inl e \<Rightarrow> W e | Inr x \<Rightarrow> True))"

definition maintains :: "(state \<Rightarrow> bool) \<Rightarrow> (err \<Rightarrow> bool) \<Rightarrow> 'a promise \<Rightarrow> bool" where
  "maintains I W m =
     (\<forall>s. I s \<longrightarrow> I (snd (m s)) \<and> (case fst (m s) of Inl e \<Rightarrow> W e | Inr x \<Rightarrow> True))"

text \<open>
  The same for an operation that may stop at the scraper's token. Up to the token it
  maintains \<open>P g\<close>, for every value of the auxiliary \<open>g\<close>; when it stops there, the promise
  it awaits and the state satisfy \<open>A g\<close>, and what it does afterwards with the token \<open>tok\<close>
  leads from \<open>C h tok\<close> to \<open>D h\<close>, for every value of the auxiliary \<open>h\<close>.
\<close>

definition parks ::
  "('g \<Rightarrow> state \<Rightarrow> bool) \<Rightarrow> (err \<Rightarrow> bool) \<Rightarrow> ('g \<Rightarrow> awaited \<Rightarrow> state \<Rightarrow> bool)
     \<Rightarrow> ('h \<Rightarrow> string option \<Rightarrow> state \<Rightarrow> bool) \<Rightarrow> ('h \<Rightarrow> state \<Rightarrow> bool) \<Rightarrow> 'a task \<Rightarrow> bool" where
  "parks P W A C D m =
     (\<forall>g s. P g s \<longrightarrow>
        (case fst (m s) of
           Settled res \<Rightarrow> P g (snd (m s)) \<and> (case res of Inl e \<Rightarrow> W e | Inr x \<Rightarrow> True)
         | AwaitsToken p k \<Rightarrow>
             A g p (snd (m s)) \<and> (\<forall>h tok. yields (C h tok) W (D h) (k tok))))"

fun isDeploymentError :: "err \<Rightarrow> bool" where
  "isDeploymentError (DeploymentError r op cause) = True"
| "isDeploymentError e = False"

fun isAborted :: "err \<Rightarrow> bool" where
  "isAborted (AbortedDeploymentError r) = True"
| "isAborted e = False"

text \<open>What an endpoint operation can reject with, and what a result can hold.\<close>

definition reportable :: "err \<Rightarrow> bool" where
  "reportable e = (isDeploymentError e \<or> e = PlainError ''Precondition failed'')"

definition recorded :: "err \<Rightarrow> bool" where
  "recorded e = (isDeploymentError e \<or> isAborted e \<or> e = PlainError ''Precondition failed'')"

definition settled :: "deployResult \<Rightarrow> bool" where
  "settled res = (case error res of None \<Rightarrow> True | Some e \<Rightarrow> reportable e)"

definition wellReported :: "deployResult \<Rightarrow> bool" where
  "wellReported res = (case error res of None \<Rightarrow> True | Some e \<Rightarrow> recorded e)"

text \<open>
  The trigger queue of a Fabricator starts fulfilled and is only ever rejected by a
  (un)registration, whose failure is a \<^verbatim>\<open>DeploymentError\<close>.
\<close>

definition wrappedQueue :: "state \<Rightarrow> bool" where
  "wrappedQueue s = (case triggerQueue s of None \<Rightarrow> True | Some e \<Rightarrow> isDeploymentError e)"

text \<open>
  The trace of \<open>s\<close> starts with \<open>base\<close>, and every event after \<open>base\<close> satisfies \<open>P\<close>.
\<close>

definition extends :: "(event \<Rightarrow> bool) \<Rightarrow> event list \<Rightarrow> state \<Rightarrow> bool" where
  "extends P base s =
     (take (length base) (trace s) = base \<and> list_all P (drop (length base) (trace s)))"

text \<open>A create call of the v1 platform whose HTTPS trigger, if any, requires HTTPS.\<close>

fun secureCreate :: "event \<Rightarrow> bool" where
  "secureCreate (Issued (GcfCreateFunction fn)) =
     (case httpsTrigger fn of
        None \<Rightarrow> True
      | Some t \<Rightarrow> securityLevel t = Some ''SECURE_ALWAYS'')"
| "secureCreate ev = True"

text \<open>
  An invariant is quiet when the steps of the operations that never wait for the token
  keep it: a call other than a v1 create or update, and a write to the heap or to the
  trigger queue.
\<close>

fun neutral :: "call \<Rightarrow> bool" where
  "neutral (GcfCreateFunction f) = False"
| "neutral (GcfUpdateFunction f) = False"
| "neutral c = True"

definition quiet :: "(state \<Rightarrow> bool) \<Rightarrow> bool" where
  "quiet I =
     ((\<forall>s c. neutral c \<longrightarrow> I s \<longrightarrow> I (record_event (Issued c) s))
      \<and> (\<forall>s h. I s \<longrightarrow> I (s\<lparr>heap := h\<rparr>))
      \<and> (\<forall>s q. I s \<longrightarrow> I (s\<lparr>triggerQueue := q\<rparr>)))"

text \<open>
  The operations that never wait for the token maintain \<open>I\<close> and reject within \<open>W\<close>; and the
  builds of the v1 platform, given any descriptor and the token \<open>tok\<close>, lead from \<open>C tok\<close>
  to \<open>D\<close>.
\<close>

definition kept :: "(err \<Rightarrow> bool) \<Rightarrow> env \<Rightarrow> fabricator \<Rightarrow> (state \<Rightarrow> bool) \<Rightarrow> bool" where
  "kept W E F I =
     (\<forall>r. maintains I W (mergeToolLabels E r)
        \<and> maintains I W (createV2Function E F r)
        \<and> maintains I W (updateV2Function E F r)
        \<and> maintains I W (setTrigger E F r False)
        \<and> maintains I W (setTrigger E F r True)
        \<and> maintains I W (deleteEndpoint E F r)
        \<and> maintains I W (createV1Function_invoker E r)
        \<and> maintains I W (updateV1Function_invoker E r))"

definition builds ::
  "(err \<Rightarrow> bool) \<Rightarrow> env \<Rightarrow> (string option \<Rightarrow> state \<Rightarrow> bool) \<Rightarrow> (state \<Rightarrow> bool) \<Rightarrow> bool" where
  "builds W E C D =
     (\<forall>r f tok. yields (C tok) W D (createV1Function_build E r (requireHttps f) tok)
        \<and> yields (C tok) W D (updateV1Function_build E r f tok))"

definition sound ::
  "(err \<Rightarrow> bool) \<Rightarrow> env \<Rightarrow> fabricator \<Rightarrow> ('g \<Rightarrow> state \<Rightarrow> bool)
     \<Rightarrow> ('g \<Rightarrow> awaited \<Rightarrow> state \<Rightarrow> bool) \<Rightarrow> ('h \<Rightarrow> string option \<Rightarrow> state \<Rightarrow> bool)
     \<Rightarrow> ('h \<Rightarrow> state \<Rightarrow> bool) \<Rightarrow> bool" where
  "sound W E F P A C D =
     ((\<forall>g. kept W E F (P g)) \<and> (\<forall>h. kept W E F (D h)) \<and> (\<forall>h. builds W E (C h) (D h))
      \<and> W (PlainError ''Precondition failed'')
      \<and> (\<forall>g s. P g s \<longrightarrow> A g (fst (tokenPromise s)) (snd (tokenPromise s))))"

text \<open>
  What holds of a handled operation: of its result \<open>R\<close>, of what it does once it is given
  the token, and of what it does after its delete.
\<close>

definition goodK ::
  "('h \<Rightarrow> string option \<Rightarrow> state \<Rightarrow> bool) \<Rightarrow> ('h \<Rightarrow> state \<Rightarrow> bool) \<Rightarrow> (deployResult \<Rightarrow> bool)
     \<Rightarrow> (string option \<Rightarrow> state \<Rightarrow> deployResult \<times> state) \<Rightarrow> bool" where
  "goodK C D R k = (\<forall>h tok s. C h tok s \<longrightarrow> D h (snd (k tok s)) \<and> R (fst (k tok s)))"

definition goodH ::
  "('g \<Rightarrow> state \<Rightarrow> bool) \<Rightarrow> ('g \<Rightarrow> awaited \<Rightarrow> state \<Rightarrow> bool)
     \<Rightarrow> ('h \<Rightarrow> string option \<Rightarrow> state \<Rightarrow> bool) \<Rightarrow> ('h \<Rightarrow> state \<Rightarrow> bool) \<Rightarrow> (deployResult \<Rightarrow> bool)
     \<Rightarrow> 'g \<Rightarrow> handled \<Rightarrow> state \<Rightarrow> bool" where
  "goodH P A C D R g h s =
     (case h of
        Pushed res \<Rightarrow> P g s \<and> R res
      | Parked p k \<Rightarrow> A g p s \<and> goodK C D R k)"

definition goodD ::
  "('g \<Rightarrow> state \<Rightarrow> bool) \<Rightarrow> ('g \<Rightarrow> awaited \<Rightarrow> state \<Rightarrow> bool)
     \<Rightarrow> ('h \<Rightarrow> string option \<Rightarrow> state \<Rightarrow> bool) \<Rightarrow> ('h \<Rightarrow> state \<Rightarrow> bool) \<Rightarrow> (deployResult \<Rightarrow> bool)
     \<Rightarrow> (state \<Rightarrow> handled \<times> state) \<Rightarrow> bool" where
  "goodD P A C D R m = (\<forall>g s. P g s \<longrightarrow> goodH P A C D R g (fst (m s)) (snd (m s)))"

definition goodL ::
  "('g \<Rightarrow> state \<Rightarrow> bool) \<Rightarrow> ('g \<Rightarrow> awaited \<Rightarrow> state \<Rightarrow> bool)
     \<Rightarrow> ('h \<Rightarrow> string option \<Rightarrow> state \<Rightarrow> bool) \<Rightarrow> ('h \<Rightarrow> state \<Rightarrow> bool) \<Rightarrow> (deployResult \<Rightarrow> bool)
     \<Rightarrow> 'g \<Rightarrow> launched \<Rightarrow> state \<Rightarrow> bool" where
  "goodL P A C D R g l s =
     (case l of
        Launched h \<Rightarrow> goodH P A C D R g h s
      | Delayed m \<Rightarrow> P g s \<and> goodD P A C D R m)"

definition within :: "(err \<Rightarrow> bool) \<Rightarrow> deployResult \<Rightarrow> bool" where
  "within W res = (case error res of None \<Rightarrow> True | Some e \<Rightarrow> W e)"

text \<open>
  The entries of a batch under one invariant \<open>I\<close>, which every operation maintains up to the
  token, at the token and after it.
\<close>

definition goodB :: "(state \<Rightarrow> bool) \<Rightarrow> (deployResult \<Rightarrow> bool) \<Rightarrow> batch \<Rightarrow> bool" where
  "goodB I R b =
     (list_all R (deployResults b)
      \<and> list_all (\<lambda>tk. goodK (\<lambda>(h::unit) tok. I) (\<lambda>h. I) R (snd tk)) (ready b)
      \<and> list_all (goodK (\<lambda>(h::unit) tok. I) (\<lambda>h. I) R) (waiting b)
      \<and> list_all (goodD (\<lambda>(g::unit). I) (\<lambda>g p. I) (\<lambda>(h::unit) tok. I) (\<lambda>h. I) R)
            (delayed b))"

text \<open>A call that sets the invoker of a newly created function or service.\<close>

fun isSetInvokerCreate :: "event \<Rightarrow> bool" where
  "isSetInvokerCreate (Issued (GcfSetInvokerCreate p n i)) = True"
| "isSetInvokerCreate (Issued (RunSetInvokerCreate p n i)) = True"
| "isSetInvokerCreate ev = False"

text \<open>
  A create or update call of the v1 platform, and the source token it is submitted with.
\<close>

fun submitted :: "event \<Rightarrow> string option option" where
  "submitted (Issued (GcfCreateFunction f)) = Some (sourceToken f)"
| "submitted (Issued (GcfUpdateFunction f)) = Some (sourceToken f)"
| "submitted ev = None"

text \<open>
  What the polls among the events make of the scraper's pending token: the report of the
  first poll that reports a token or whose operation is done, and \<^verbatim>\<open>None\<close> when there is
  no such poll, so that the token is still pending.
\<close>

fun scrapedFrom :: "event list \<Rightarrow> string option option" where
  "scrapedFrom [] = None"
| "scrapedFrom (Polled t # evs) =
     (if reported t \<noteq> None \<or> op_done t then Some (reported t) else scrapedFrom evs)"
| "scrapedFrom (Issued c # evs) = scrapedFrom evs"

text \<open>
  The events of a changeset follow the token: the first create or update call of the v1
  platform is submitted with the empty token, and every later one with the token that the
  polls before it have resolved.
\<close>

fun tokensFollow :: "event list \<Rightarrow> event list \<Rightarrow> bool" where
  "tokensFollow pre [] = True"
| "tokensFollow pre (ev # evs) =
     ((case submitted ev of
         None \<Rightarrow> True
       | Some tok \<Rightarrow>
           if list_ex (\<lambda>e. submitted e \<noteq> None) pre then scrapedFrom pre = Some tok
           else tok = None)
      \<and> tokensFollow (pre @ [ev]) evs)"

text \<open>
  The state of a changeset that started at the trace \<open>base\<close>: its events follow the token,
  and the scraper holds what the polls have resolved. It is fresh as long as no create or
  update call of the v1 platform was submitted and the token is pending.
\<close>

definition since :: "event list \<Rightarrow> state \<Rightarrow> event list" where
  "since base s = drop (length base) (trace s)"

definition scraped :: "event list \<Rightarrow> state \<Rightarrow> bool" where
  "scraped base s =
     (take (length base) (trace s) = base
      \<and> tokensFollow [] (since base s)
      \<and> token (scraper s) = scrapedFrom (since base s))"

definition begunV1 :: "event list \<Rightarrow> state \<Rightarrow> bool" where
  "begunV1 base s = list_ex (\<lambda>e. submitted e \<noteq> None) (since base s)"

definition fresh :: "event list \<Rightarrow> scraper \<Rightarrow> state \<Rightarrow> bool" where
  "fresh base sc s =
     (scraped base s \<and> \<not> begunV1 base s \<and> token (scraper s) = None \<and> scraper s = sc)"

definition asked :: "event list \<Rightarrow> scraper \<Rightarrow> awaited \<Rightarrow> state \<Rightarrow> bool" where
  "asked base sc p s =
     (scraped base s \<and> \<not> begunV1 base s \<and> token (scraper s) = None
      \<and> scraper s = sc\<lparr>firstCall := False\<rparr>
      \<and> p = (if firstCall sc then Resolved None else Shared))"

definition admits :: "event list \<Rightarrow> string option option \<Rightarrow> string option \<Rightarrow> state \<Rightarrow> bool" where
  "admits base h tok s =
     (scraped base s \<and> token (scraper s) = h
      \<and> (if begunV1 base s then h = Some tok else tok = None \<and> h = None))"

definition followed :: "event list \<Rightarrow> string option option \<Rightarrow> state \<Rightarrow> bool" where
  "followed base h s =
     (scraped base s \<and> begunV1 base s \<and> (h \<noteq> None \<longrightarrow> token (scraper s) = h))"

text \<open>
  The entries of a batch of upserts in a changeset that started at \<open>base\<close>: at most one
  operation is parked at a resolved promise, the one that asked first, and its token is
  the empty one.
\<close>

definition goodT :: "event list \<Rightarrow> batch \<Rightarrow> state \<Rightarrow> bool" where
  "goodT base b s =
     (fresh base (scraper s) s
      \<and> (firstCall (scraper s) \<longrightarrow> ready b = [])
      \<and> length (ready b) \<le> 1
      \<and> list_all (\<lambda>tk. fst tk = None
            \<and> goodK (admits base) (followed base) (within (\<lambda>e. True)) (snd tk)) (ready b)
      \<and> list_all (goodK (admits base) (followed base) (within (\<lambda>e. True))) (waiting b)
      \<and> list_all (goodD (fresh base) (asked base) (admits base) (followed base)
            (within (\<lambda>e. True))) (delayed b))"

section \<open>Example inputs\<close>

text \<open>
  A small project for the concrete instances below: a world in which every call succeeds
  except the ones picked by \<open>failing\<close>, and whose clock counts the events so far.
\<close>

definition ex_endpoint :: "string \<Rightarrow> platform \<Rightarrow> triggered \<Rightarrow> endpoint" where
  "ex_endpoint name pf tr =
     \<lparr>project = ''demo'', region = ''us-central1'', id' = name, platform = pf, trigger = tr,
      availableMemoryMb = None, concurrency = None, labels = Map.empty, uri = None\<rparr>"

definition ex_env :: "(call \<Rightarrow> bool) \<Rightarrow> env" where
  "ex_env failing =
     \<lparr>DEFAULT_MEMORY = 256, MIN_MEMORY_FOR_CONCURRENCY = 2048,
      AUTH_BLOCKING_EVENTS = [''beforeCreate'', ''beforeSignIn''],
      deploymentTool_labels = [''deployment-tool'' \<mapsto> ''cli-firebase''],
      functionName = id',
      gcf_functionFromEndpoint = (\<lambda>ep u.
        \<lparr>cf_name = id' ep,
         httpsTrigger = (case trigger ep of
                           HttpsTriggered given \<Rightarrow> Some \<lparr>securityLevel = None, url = None\<rparr>
                         | _ \<Rightarrow> None),
         sourceToken = None\<rparr>),
      gcfV2_functionFromEndpoint = (\<lambda>ep src.
        \<lparr>cf2_name = id' ep, eventTrigger = None,
         serviceConfig = \<lparr>sc_uri = None, service = None\<rparr>\<rparr>),
      jobFromEndpoint = (\<lambda>ep loc. \<lparr>job_name = id' ep, topicName = id' ep\<rparr>),
      queueFromEndpoint = (\<lambda>ep. \<lparr>queue_name = id' ep\<rparr>),
      queueNameForEndpoint = id',
      now = (\<lambda>tr. int (length tr)),
      respond = (\<lambda>tr c. if failing c then Some (ApiError (Some 503) ''unavailable'') else None),
      startOperation = (\<lambda>tr c.
        if failing c then Inl (ApiError (Some 503) ''unavailable'') else Inr ''operation''),
      pollV1 = (\<lambda>tr opts.
        ([\<lparr>reported = Some ''token'', op_done = True\<rparr>],
         Inr \<lparr>cf_name = '''', httpsTrigger = None, sourceToken = None\<rparr>)),
      pollV2 = (\<lambda>tr opts.
        Inr \<lparr>cf2_name = '''', eventTrigger = None,
             serviceConfig = \<lparr>sc_uri = Some ''https://service'', service = Some ''service''\<rparr>\<rparr>),
      pollVoid = (\<lambda>tr opts. None),
      getService = (\<lambda>tr n.
        Inr \<lparr>svc_status = Some ''ready'', templateName = Some ''revision'',
             containerConcurrency = Some 80\<rparr>)\<rparr>"

definition ex_fabricator :: fabricator where
  "ex_fabricator =
     \<lparr>sourceUrl = Some ''source.zip'', storage = Some [''us-central1'' \<mapsto> ''source''],
      appEngineLocation = ''us-central''\<rparr>"

definition ex_state :: "(ref \<Rightarrow> endpoint) \<Rightarrow> state" where
  "ex_state h = \<lparr>trace = [], heap = h, triggerQueue = None, scraper = newScraper\<rparr>"

text \<open>
  Endpoint 0 is a v1 HTTPS function, endpoint 1 a v1 callable and endpoint 2 a v2 event
  function; \<open>fails_b\<close> makes the creation of endpoint 1 fail.
\<close>

definition ex_heap_abd :: "ref \<Rightarrow> endpoint" where
  "ex_heap_abd r =
     (if r = 0 then ex_endpoint ''a'' Gcfv1 (HttpsTriggered None)
      else if r = 1 then ex_endpoint ''b'' Gcfv1 CallableTriggered
      else ex_endpoint ''d'' Gcfv2 EventTriggered)"

definition fails_b :: "call \<Rightarrow> bool" where
  "fails_b c = (case c of GcfCreateFunction f \<Rightarrow> cf_name f = ''b'' | _ \<Rightarrow> False)"

definition ex_changes_abd :: changeset where
  "ex_changes_abd =
     \<lparr>endpointsToCreate = [0, 1], endpointsToUpdate = [], endpointsToDelete = [2]\<rparr>"

text \<open>The same changeset with the two creates in the other order.\<close>

definition ex_changes_bad :: changeset where
  "ex_changes_bad =
     \<lparr>endpointsToCreate = [1, 0], endpointsToUpdate = [], endpointsToDelete = [2]\<rparr>"

definition fails_none :: "call \<Rightarrow> bool" where
  "fails_none c = False"

text \<open>A Fabricator constructed without source locators, and a plan that creates endpoint 0.\<close>

definition ex_fabricator_bare :: fabricator where
  "ex_fabricator_bare = \<lparr>sourceUrl = None, storage = None, appEngineLocation = ''us-central''\<rparr>"

definition ex_changes_a :: changeset where
  "ex_changes_a = \<lparr>endpointsToCreate = [0], endpointsToUpdate = [], endpointsToDelete = []\<rparr>"

text \<open>
  Endpoints for the invoker policy: 0 a v1 HTTPS function without invoker, 1 a v1 task
  queue function without invoker, 2 a v2 callable, and otherwise a v2 HTTPS function whose
  invoker is private.
\<close>

definition ex_heap_invokers :: "ref \<Rightarrow> endpoint" where
  "ex_heap_invokers r =
     (if r = 0 then ex_endpoint ''a'' Gcfv1 (HttpsTriggered None)
      else if r = 1 then ex_endpoint ''q'' Gcfv1 (TaskQueueTriggered None)
      else if r = 2 then ex_endpoint ''c'' Gcfv2 CallableTriggered
      else ex_endpoint ''p'' Gcfv2 (HttpsTriggered (Some [''private''])))"

text \<open>
  Endpoints for the concurrency: v2 event functions with 4096 MB of memory; endpoint 0
  asks for concurrency 1, the others for none.
\<close>

definition ex_heap_concurrency :: "ref \<Rightarrow> endpoint" where
  "ex_heap_concurrency r =
     (if r = 0
      then (ex_endpoint ''one'' Gcfv2 EventTriggered)
             \<lparr>availableMemoryMb := Some 4096, concurrency := Some 1\<rparr>
      else (ex_endpoint ''unset'' Gcfv2 EventTriggered)\<lparr>availableMemoryMb := Some 4096\<rparr>)"

text \<open>
  Endpoints 0 and 1 are v1 functions with a blocking trigger, \<open>x\<close> and \<open>y\<close>; \<open>fails_x\<close> makes
  the registration of the trigger of \<open>x\<close> fail. Each changeset creates one of them.
\<close>

definition ex_heap_blocking :: "ref \<Rightarrow> endpoint" where
  "ex_heap_blocking r =
     (if r = 0 then ex_endpoint ''x'' Gcfv1 (BlockingTriggered ''beforeCreate'')
      else ex_endpoint ''y'' Gcfv1 (BlockingTriggered ''beforeCreate''))"

definition fails_x :: "call \<Rightarrow> bool" where
  "fails_x c = (case c of RegisterTrigger ep update \<Rightarrow> id' ep = ''x'' | _ \<Rightarrow> False)"

definition ex_changes_x :: changeset where
  "ex_changes_x = \<lparr>endpointsToCreate = [0], endpointsToUpdate = [], endpointsToDelete = []\<rparr>"

definition ex_changes_y :: changeset where
  "ex_changes_y = \<lparr>endpointsToCreate = [1], endpointsToUpdate = [], endpointsToDelete = []\<rparr>"

text \<open>
  A world like the example's in which no poll reports a source token, and a changeset that
  creates the v1 endpoints 0 and 1.
\<close>

definition ex_env_silent :: env where
  "ex_env_silent =
     (ex_env fails_none)
       \<lparr>pollV1 := (\<lambda>tr opts.
          ([\<lparr>reported = None, op_done = True\<rparr>],
           Inr \<lparr>cf_name = '''', httpsTrigger = None, sourceToken = None\<rparr>))\<rparr>"

definition ex_changes_ab :: changeset where
  "ex_changes_ab = \<lparr>endpointsToCreate = [0, 1], endpointsToUpdate = [], endpointsToDelete = []\<rparr>"

section \<open>Shared lemmas\<close>

subsection \<open>Unfolding the model on concrete inputs\<close>

lemmas promise_defs = resolve_def reject_def await_def catch_def rethrowAs_def run_def
  record_event_def issue_def issueOperation_def run_getService_def feed_def
  pollOperationV1_def pollOperationV2_def pollOperationVoid_def getEndpoint_def
  setLabels_def setUri_def tokenPromise_def newScraper_def poller_def
  asTask_def awaitToken_def await_then_def await_task_def

lemmas fabricator_defs = gcfV1PollerOptions_def gcfV2PollerOptions_def
  DEFAULT_GCFV2_CONCURRENCY_def setConcurrency_def createV1Function_invoker_def
  requireHttps_def createV1Function_build_def createV1Function_submit_def
  createV1Function_def createTopic_def
  createV2Function_invoker_def createV2Function_concurrency_def createV2Function_submit_def
  createV2Function_def update_invoker_def updateV1Function_build_def
  updateV1Function_submit_def
  updateV1Function_invoker_def updateV1Function_def updateV2Function_invoker_def
  updateV2Function_concurrency_def dropPubsubTopic_def updateV2Function_submit_def
  updateV2Function_def deleteV1Function_def deleteV2Function_def upsertScheduleV1_def
  upsertScheduleV2_def upsertTaskQueue_def enqueue_def registerBlockingTrigger_def
  deleteScheduleV1_def deleteScheduleV2_def disableTaskQueue_def
  unregisterBlockingTrigger_def setTrigger_def deleteTrigger_def mergeToolLabels_def
  createEndpoint_def deleteEndpoint_def asBegun_def updateEndpoint_def stop_def
  caught_def handle_def noted_def allSettled_def upserts_def deletes_def
  aborted_def applyChangeset_def applyPlan_def

lemmas example_defs = ex_endpoint_def ex_env_def ex_fabricator_def ex_state_def
  ex_heap_abd_def fails_b_def ex_changes_abd_def ex_changes_bad_def fails_none_def
  ex_fabricator_bare_def ex_changes_a_def ex_heap_invokers_def
  ex_heap_concurrency_def ex_heap_blocking_def fails_x_def ex_changes_x_def ex_changes_y_def
  ex_env_silent_def ex_changes_ab_def

subsection \<open>Rules for \<open>maintains\<close> and \<open>yields\<close>\<close>

lemma maintains_yields: "maintains I W m = yields I W I m"
  by (simp add: maintains_def yields_def)

lemma yieldsD:
  assumes "yields C W D m" and "C s" and "m s = (res, s')"
  shows "D s'" and "case res of Inl e \<Rightarrow> W e | Inr x \<Rightarrow> True"
  using assms by (auto simp: yields_def dest!: spec [where x = s])

lemma yieldsI:
  assumes "\<And>s res s'. C s \<Longrightarrow> m s = (res, s') \<Longrightarrow>
             D s' \<and> (case res of Inl e \<Rightarrow> W e | Inr x \<Rightarrow> True)"
  shows "yields C W D m"
  unfolding yields_def
proof (intro allI impI)
  fix s assume "C s"
  from assms [OF this, of "fst (m s)" "snd (m s)"]
  show "D (snd (m s)) \<and> (case fst (m s) of Inl e \<Rightarrow> W e | Inr x \<Rightarrow> True)" by simp
qed

lemma maintains_resolve: "maintains I W (resolve x)"
  by (simp add: maintains_def resolve_def)

lemma maintains_reject: "W e \<Longrightarrow> maintains I W (reject e)"
  by (simp add: maintains_def reject_def)

lemma yields_await:
  assumes m: "yields C W D m" and f: "\<And>x. yields D W D (f x)"
  shows "yields C W D (await m f)"
proof (rule yieldsI)
  fix s res s' assume C: "C s" and eq: "await m f s = (res, s')"
  obtain res1 s1 where m1: "m s = (res1, s1)" by (cases "m s")
  note d = yieldsD [OF m C m1]
  show "D s' \<and> (case res of Inl e \<Rightarrow> W e | Inr x \<Rightarrow> True)"
  proof (cases res1)
    case (Inl e)
    with eq m1 have "res = Inl e" "s' = s1" by (simp_all add: await_def)
    with d Inl show ?thesis by simp
  next
    case (Inr x)
    with eq m1 have "f x s1 = (res, s')" by (simp add: await_def)
    from yieldsD [OF f d(1) this] show ?thesis by simp
  qed
qed

lemma maintains_await:
  "maintains I W m \<Longrightarrow> (\<And>x. maintains I W (f x)) \<Longrightarrow> maintains I W (await m f)"
  unfolding maintains_yields by (rule yields_await)

lemma yields_catch:
  assumes m: "yields C (\<lambda>e. True) D m" and h: "\<And>e. yields D W D (h e)"
  shows "yields C W D (catch m h)"
proof (rule yieldsI)
  fix s res s' assume C: "C s" and eq: "catch m h s = (res, s')"
  obtain res1 s1 where m1: "m s = (res1, s1)" by (cases "m s")
  note d = yieldsD [OF m C m1]
  show "D s' \<and> (case res of Inl e \<Rightarrow> W e | Inr x \<Rightarrow> True)"
  proof (cases res1)
    case (Inl e)
    with eq m1 have "h e s1 = (res, s')" by (simp add: catch_def)
    from yieldsD [OF h d(1) this] show ?thesis by simp
  next
    case (Inr x)
    with eq m1 have "res = Inr x" "s' = s1" by (simp_all add: catch_def)
    with d show ?thesis by simp
  qed
qed

lemma maintains_catch:
  "maintains I (\<lambda>e. True) m \<Longrightarrow> (\<And>e. maintains I W (h e)) \<Longrightarrow> maintains I W (catch m h)"
  unfolding maintains_yields by (rule yields_catch)

lemma yields_getEndpoint:
  assumes "\<And>ep. yields C W D (f ep)"
  shows "yields C W D (await (getEndpoint r) f)"
  using assms by (simp add: yields_def await_def getEndpoint_def)

lemma maintains_run: "maintains I W fn \<Longrightarrow> maintains I W (run fn)"
  by (simp add: run_def)

lemma maintains_rethrowAs: "W (DeploymentError r op e) \<Longrightarrow> maintains I W (rethrowAs r op e)"
  by (simp add: rethrowAs_def maintains_reject)

lemma maintains_getEndpoint: "maintains I W (getEndpoint r)"
  by (simp add: maintains_def getEndpoint_def)

lemma maintains_weaken:
  "maintains I W m \<Longrightarrow> (\<And>e. W e \<Longrightarrow> W' e) \<Longrightarrow> maintains I W' m"
  unfolding maintains_def by (auto split: sum.splits)

subsection \<open>Rules for \<open>parks\<close>\<close>

lemma parks_Settled:
  assumes "parks P W A C D m" and "P g s" and "m s = (Settled res, s')"
  shows "P g s'" and "case res of Inl e \<Rightarrow> W e | Inr x \<Rightarrow> True"
  using assms by (auto simp: parks_def dest!: spec [where x = s] spec [where x = g])

lemma parks_AwaitsToken:
  assumes "parks P W A C D m" and "P g s" and "m s = (AwaitsToken p k, s')"
  shows "A g p s'" and "yields (C h tok) W (D h) (k tok)"
  using assms by (auto simp: parks_def dest!: spec [where x = s] spec [where x = g])

lemma parksI:
  assumes "\<And>g s res s'. P g s \<Longrightarrow> m s = (Settled res, s') \<Longrightarrow>
             P g s' \<and> (case res of Inl e \<Rightarrow> W e | Inr x \<Rightarrow> True)"
    and "\<And>g s p k s'. P g s \<Longrightarrow> m s = (AwaitsToken p k, s') \<Longrightarrow>
             A g p s' \<and> (\<forall>h tok. yields (C h tok) W (D h) (k tok))"
  shows "parks P W A C D m"
  unfolding parks_def
proof (intro allI impI)
  fix g s assume P: "P g s"
  obtain out s' where eq: "m s = (out, s')" by (cases "m s")
  show "case fst (m s) of
          Settled res \<Rightarrow> P g (snd (m s)) \<and> (case res of Inl e \<Rightarrow> W e | Inr x \<Rightarrow> True)
        | AwaitsToken p k \<Rightarrow> A g p (snd (m s))
            \<and> (\<forall>h tok. yields (C h tok) W (D h) (k tok))"
  proof (cases out)
    case (Settled res)
    with assms(1) [OF P, of res s'] eq show ?thesis by simp
  next
    case (AwaitsToken p k)
    with assms(2) [OF P, of p k s'] eq show ?thesis by simp
  qed
qed

lemma parks_asTask:
  assumes "\<And>g. maintains (P g) W m"
  shows "parks P W A C D (asTask m)"
proof (rule parksI)
  fix g s res s' assume P: "P g s" and eq: "asTask m s = (Settled res, s')"
  then have "m s = (res, s')" by (cases "m s") (simp add: asTask_def)
  from yieldsD [OF assms [of g, unfolded maintains_yields] P this]
  show "P g s' \<and> (case res of Inl e \<Rightarrow> W e | Inr x \<Rightarrow> True)" by simp
next
  fix g s p k s' assume "asTask m s = (AwaitsToken p k, s')"
  then have False by (cases "m s") (simp add: asTask_def)
  then show "A g p s' \<and> (\<forall>h tok. yields (C h tok) W (D h) (k tok))" ..
qed

lemma parks_awaitToken:
  assumes a: "\<And>g s. P g s \<Longrightarrow> A g (fst (tokenPromise s)) (snd (tokenPromise s))"
    and k: "\<And>h tok. yields (C h tok) W (D h) (k tok)"
  shows "parks P W A C D (awaitToken k)"
proof (rule parksI)
  fix g s res s' assume "awaitToken k s = (Settled res, s')"
  then have False by (cases "tokenPromise s") (simp add: awaitToken_def)
  then show "P g s' \<and> (case res of Inl e \<Rightarrow> W e | Inr x \<Rightarrow> True)" ..
next
  fix g s p k' s' assume P: "P g s" and eq: "awaitToken k s = (AwaitsToken p k', s')"
  then have "tokenPromise s = (p, s')" and "k' = k"
    by (cases "tokenPromise s"; simp add: awaitToken_def)+
  with a [OF P] k show "A g p s' \<and> (\<forall>h tok. yields (C h tok) W (D h) (k' tok))" by simp
qed

lemma parks_await_then:
  assumes m: "\<And>g. maintains (P g) W m" and f: "\<And>x. parks P W A C D (f x)"
  shows "parks P W A C D (await_then m f)"
proof (rule parksI)
  fix g s res s' assume P: "P g s" and eq: "await_then m f s = (Settled res, s')"
  obtain res1 s1 where m1: "m s = (res1, s1)" by (cases "m s")
  note d = yieldsD [OF m [of g, unfolded maintains_yields] P m1]
  show "P g s' \<and> (case res of Inl e \<Rightarrow> W e | Inr x \<Rightarrow> True)"
  proof (cases res1)
    case (Inl e)
    with eq m1 have "res = Inl e" "s' = s1" by (simp_all add: await_then_def)
    with d Inl show ?thesis by simp
  next
    case (Inr x)
    with eq m1 have "f x s1 = (Settled res, s')" by (simp add: await_then_def)
    from parks_Settled [OF f d(1) this] show ?thesis by simp
  qed
next
  fix g s p k s' assume P: "P g s" and eq: "await_then m f s = (AwaitsToken p k, s')"
  obtain res1 s1 where m1: "m s = (res1, s1)" by (cases "m s")
  note d = yieldsD [OF m [of g, unfolded maintains_yields] P m1]
  show "A g p s' \<and> (\<forall>h tok. yields (C h tok) W (D h) (k tok))"
  proof (cases res1)
    case (Inl e)
    with eq m1 show ?thesis by (simp add: await_then_def)
  next
    case (Inr x)
    with eq m1 have "f x s1 = (AwaitsToken p k, s')" by (simp add: await_then_def)
    from parks_AwaitsToken [OF f d(1) this] show ?thesis by simp
  qed
qed

lemma parks_await_task:
  assumes m: "parks P W A C D m"
    and f: "\<And>g x. maintains (P g) W (f x)"
    and f': "\<And>h x. maintains (D h) W (f x)"
  shows "parks P W A C D (await_task m f)"
proof (rule parksI)
  fix g s res s' assume P: "P g s" and eq: "await_task m f s = (Settled res, s')"
  obtain out s1 where m1: "m s = (out, s1)" by (cases "m s")
  show "P g s' \<and> (case res of Inl e \<Rightarrow> W e | Inr x \<Rightarrow> True)"
  proof (cases out)
    case (Settled res1)
    note d = parks_Settled [OF m P m1 [unfolded Settled]]
    show ?thesis
    proof (cases res1)
      case (Inl e)
      with eq m1 Settled have "res = Inl e" "s' = s1" by (simp_all add: await_task_def)
      with d Inl show ?thesis by simp
    next
      case (Inr x)
      with eq m1 Settled have "f x s1 = (res, s')"
        by (cases "f x s1") (simp add: await_task_def asTask_def)
      from yieldsD [OF f [of g x, unfolded maintains_yields] d(1) this] show ?thesis by simp
    qed
  next
    case (AwaitsToken p k)
    with eq m1 show ?thesis by (simp add: await_task_def)
  qed
next
  fix g s p k s' assume P: "P g s" and eq: "await_task m f s = (AwaitsToken p k, s')"
  obtain out s1 where m1: "m s = (out, s1)" by (cases "m s")
  show "A g p s' \<and> (\<forall>h tok. yields (C h tok) W (D h) (k tok))"
  proof (cases out)
    case (Settled res1)
    with eq m1 show ?thesis
      by (cases res1; cases "f (projr res1) s1") (simp_all add: await_task_def asTask_def)
  next
    case (AwaitsToken p1 k1)
    note d = parks_AwaitsToken [OF m P m1 [unfolded AwaitsToken]]
    from eq m1 AwaitsToken have e: "p = p1" "s' = s1" "k = (\<lambda>tok. await (k1 tok) f)"
      by (simp_all add: await_task_def)
    have "\<And>h tok. yields (C h tok) W (D h) (await (k1 tok) f)"
      by (rule yields_await [OF d(2)]) (simp add: maintains_yields [symmetric] f')
    with d(1) e show ?thesis by simp
  qed
qed

subsection \<open>Errors are wrapped\<close>

text \<open>What the trigger queue holds is untouched by the primitive steps.\<close>

lemma wrappedQueue_record_event [simp]: "wrappedQueue (record_event ev s) = wrappedQueue s"
  by (simp add: wrappedQueue_def record_event_def)

lemma wrappedQueue_feed [simp]: "wrappedQueue (feed t s) = wrappedQueue s"
  by (simp add: feed_def wrappedQueue_def record_event_def)

lemma wrappedQueue_fold_feed [simp]: "wrappedQueue (fold feed ts s) = wrappedQueue s"
  by (induction ts arbitrary: s) simp_all

lemma wrappedQueue_frame [simp]:
  "wrappedQueue (s\<lparr>heap := h\<rparr>) = wrappedQueue s"
  "wrappedQueue (s\<lparr>scraper := sc\<rparr>) = wrappedQueue s"
  by (simp_all add: wrappedQueue_def)

lemma wq_issue: "maintains wrappedQueue (\<lambda>e. True) (issue E c)"
  by (simp add: maintains_def issue_def split: option.splits)

lemma wq_issueOperation: "maintains wrappedQueue (\<lambda>e. True) (issueOperation E c)"
  by (simp add: maintains_def issueOperation_def split: sum.splits)

lemma wq_run_getService: "maintains wrappedQueue (\<lambda>e. True) (run_getService E n)"
  by (simp add: maintains_def run_getService_def split: sum.splits)

lemma wq_pollOperationV2: "maintains wrappedQueue (\<lambda>e. True) (pollOperationV2 E opts)"
  by (simp add: maintains_def pollOperationV2_def split: sum.splits)

lemma wq_pollOperationVoid: "maintains wrappedQueue (\<lambda>e. True) (pollOperationVoid E opts)"
  by (simp add: maintains_def pollOperationVoid_def split: option.splits)

lemma wq_setUri: "maintains wrappedQueue W (setUri r u)"
  by (simp add: maintains_def setUri_def)

lemma wq_setLabels: "maintains wrappedQueue W (setLabels r l)"
  by (simp add: maintains_def setLabels_def)

lemma reportable_DeploymentError [simp]: "reportable (DeploymentError r op e)"
  by (simp add: reportable_def)

lemma reportable_precondition [simp]: "reportable (PlainError ''Precondition failed'')"
  by (simp add: reportable_def)

lemmas wq_rules =
  maintains_resolve maintains_reject maintains_await maintains_catch maintains_run
  maintains_rethrowAs maintains_getEndpoint
  wq_issue wq_issueOperation wq_run_getService wq_pollOperationV2
  wq_pollOperationVoid wq_setUri wq_setLabels

lemma wq_setConcurrency: "maintains wrappedQueue reportable (setConcurrency E r n c)"
  unfolding setConcurrency_def by (auto intro!: wq_rules)

lemma wq_createV1Function_invoker: "maintains wrappedQueue reportable (createV1Function_invoker E r)"
  unfolding createV1Function_invoker_def Let_def
  by (auto intro!: wq_rules split: triggered.split option.split)

lemma wq_updateV1Function_invoker: "maintains wrappedQueue reportable (updateV1Function_invoker E r)"
  unfolding updateV1Function_invoker_def
  by (auto intro!: wq_rules split: option.split)

lemma wq_enqueue:
  assumes "maintains wrappedQueue isDeploymentError fn"
  shows "maintains wrappedQueue isDeploymentError (enqueue fn)"
  unfolding maintains_def
proof (intro allI impI)
  fix s assume I: "wrappedQueue s"
  show "wrappedQueue (snd (enqueue fn s)) \<and>
        (case fst (enqueue fn s) of Inl e \<Rightarrow> isDeploymentError e | Inr x \<Rightarrow> True)"
  proof (cases "triggerQueue s")
    case (Some e)
    with I show ?thesis by (simp add: enqueue_def wrappedQueue_def)
  next
    case None
    from assms I have fn: "wrappedQueue (snd (fn s))"
      "case fst (fn s) of Inl e \<Rightarrow> isDeploymentError e | Inr x \<Rightarrow> True"
      by (simp_all add: maintains_def)
    obtain res s' where eq: "fn s = (res, s')" by (cases "fn s")
    with fn None show ?thesis
      by (cases res) (simp_all add: enqueue_def wrappedQueue_def)
  qed
qed

lemma isDeploymentError_DeploymentError: "isDeploymentError (DeploymentError r op e)"
  by simp

lemma wq_registerBlockingTrigger:
  "maintains wrappedQueue reportable (registerBlockingTrigger E r update)"
  unfolding registerBlockingTrigger_def
  by (rule maintains_weaken [where W = isDeploymentError])
     (auto intro!: wq_enqueue wq_rules simp: reportable_def)

lemma wq_unregisterBlockingTrigger:
  "maintains wrappedQueue reportable (unregisterBlockingTrigger E r)"
  unfolding unregisterBlockingTrigger_def
  by (rule maintains_weaken [where W = isDeploymentError])
     (auto intro!: wq_enqueue wq_rules simp: reportable_def)

lemma wq_createTopic: "maintains wrappedQueue reportable (createTopic E r topic)"
  unfolding createTopic_def by (auto intro!: wq_rules)

lemma wq_createV2Function_submit: "maintains wrappedQueue reportable (createV2Function_submit E F r)"
  unfolding createV2Function_submit_def Let_def
  by (auto intro!: wq_rules wq_createTopic split: option.split)

lemma wq_createV2Function_invoker:
  "maintains wrappedQueue reportable (createV2Function_invoker E r n)"
  unfolding createV2Function_invoker_def Let_def
  by (auto intro!: wq_rules split: triggered.split option.split)

lemma wq_createV2Function_concurrency:
  "maintains wrappedQueue reportable (createV2Function_concurrency E r n)"
  unfolding createV2Function_concurrency_def Let_def
  by (auto intro!: wq_rules wq_setConcurrency split: option.split)

lemma wq_createV2Function: "maintains wrappedQueue reportable (createV2Function E F r)"
  unfolding createV2Function_def
  by (intro maintains_await wq_createV2Function_submit wq_createV2Function_invoker
        wq_createV2Function_concurrency)

lemma wq_updateV2Function: "maintains wrappedQueue reportable (updateV2Function E F r)"
  unfolding updateV2Function_def updateV2Function_submit_def updateV2Function_invoker_def
    updateV2Function_concurrency_def
  by (auto intro!: wq_rules wq_setConcurrency split: option.split)

lemma wq_deleteV1Function: "maintains wrappedQueue reportable (deleteV1Function E r)"
  unfolding deleteV1Function_def by (auto intro!: wq_rules)

lemma wq_deleteV2Function: "maintains wrappedQueue reportable (deleteV2Function E r)"
  unfolding deleteV2Function_def by (auto intro!: wq_rules)

lemma wq_setTrigger: "maintains wrappedQueue reportable (setTrigger E F r update)"
  unfolding setTrigger_def upsertScheduleV1_def upsertScheduleV2_def upsertTaskQueue_def
  by (auto intro!: wq_rules wq_registerBlockingTrigger
        split: triggered.split option.split platform.split)

lemma wq_deleteTrigger: "maintains wrappedQueue reportable (deleteTrigger E F r)"
  unfolding deleteTrigger_def deleteScheduleV1_def deleteScheduleV2_def disableTaskQueue_def
  by (auto intro!: wq_rules wq_unregisterBlockingTrigger
        split: triggered.split option.split platform.split)

lemma wq_mergeToolLabels: "maintains wrappedQueue reportable (mergeToolLabels E r)"
  unfolding mergeToolLabels_def by (auto intro!: wq_rules)

lemma wq_deleteEndpoint: "maintains wrappedQueue reportable (deleteEndpoint E F r)"
  unfolding deleteEndpoint_def
  by (auto intro!: wq_rules wq_deleteTrigger wq_deleteV1Function wq_deleteV2Function)

lemma kept_wrappedQueue: "kept reportable E F wrappedQueue"
  unfolding kept_def
  by (intro allI conjI wq_mergeToolLabels wq_createV2Function wq_updateV2Function
        wq_setTrigger wq_deleteEndpoint wq_createV1Function_invoker
        wq_updateV1Function_invoker)

subsection \<open>The builds of the v1 platform\<close>

lemma fold_feed_keeps:
  "(\<And>s t. D s \<Longrightarrow> D (feed t s)) \<Longrightarrow> D s \<Longrightarrow> D (fold feed ts s)"
  by (induction ts arbitrary: s) simp_all

lemma builds_intro:
  assumes ev: "\<And>s c. neutral c \<Longrightarrow> D s \<Longrightarrow> D (record_event (Issued c) s)"
    and hp: "\<And>s h. D s \<Longrightarrow> D (s\<lparr>heap := h\<rparr>)"
    and fd: "\<And>s t. D s \<Longrightarrow> D (feed t s)"
    and cr: "\<And>s f tok. C tok s \<Longrightarrow>
               D (record_event
                    (Issued (GcfCreateFunction ((requireHttps f)\<lparr>sourceToken := tok\<rparr>))) s)"
    and up: "\<And>s f tok. C tok s \<Longrightarrow>
               D (record_event (Issued (GcfUpdateFunction (f\<lparr>sourceToken := tok\<rparr>))) s)"
    and w: "\<And>r op e. W (DeploymentError r op e)"
  shows "builds W E C D"
  unfolding builds_def
proof (intro allI conjI)
  fix r f tok
  have p: "\<And>opts. yields D (\<lambda>e. True) D (pollOperationV1 E opts)"
    by (simp add: yields_def pollOperationV1_def ev fd fold_feed_keeps
        split: prod.splits sum.splits)
  have t: "\<And>op e. yields D W D (rethrowAs r op e)"
    by (simp add: yields_def rethrowAs_def reject_def w)
  have u: "\<And>x. yields D W D (setUri r x)"
    by (simp add: yields_def setUri_def hp)
  have c: "yields (C tok) (\<lambda>e. True) D
      (issueOperation E (GcfCreateFunction ((requireHttps f)\<lparr>sourceToken := tok\<rparr>)))"
    by (simp add: yields_def issueOperation_def cr split: sum.splits)
  show "yields (C tok) W D (createV1Function_build E r (requireHttps f) tok)"
    unfolding createV1Function_build_def run_def
    by (rule yields_getEndpoint)
       (rule yields_await [OF yields_catch [OF yields_await [OF c p] t] u])
  have c': "yields (C tok) (\<lambda>e. True) D
      (issueOperation E (GcfUpdateFunction (f\<lparr>sourceToken := tok\<rparr>)))"
    by (simp add: yields_def issueOperation_def up split: sum.splits)
  show "yields (C tok) W D (updateV1Function_build E r f tok)"
    unfolding updateV1Function_build_def run_def
    by (rule yields_getEndpoint)
       (rule yields_await [OF yields_catch [OF yields_await [OF c' p] t] u])
qed

lemma builds_wrappedQueue: "builds reportable E (\<lambda>tok. wrappedQueue) wrappedQueue"
  by (rule builds_intro) simp_all

lemma sound_wrappedQueue:
  "sound reportable E F (\<lambda>g. wrappedQueue) (\<lambda>g p. wrappedQueue) (\<lambda>h tok. wrappedQueue)
     (\<lambda>h. wrappedQueue)"
  by (simp add: sound_def kept_wrappedQueue builds_wrappedQueue tokenPromise_def)

subsection \<open>The operations that wait for the token\<close>

lemma sound_kept: "sound W E F P A C D \<Longrightarrow> kept W E F (P g)"
  and sound_kept': "sound W E F P A C D \<Longrightarrow> kept W E F (D h)"
  and sound_builds: "sound W E F P A C D \<Longrightarrow> builds W E (C h) (D h)"
  and sound_precondition: "sound W E F P A C D \<Longrightarrow> W (PlainError ''Precondition failed'')"
  and sound_tokenPromise:
    "sound W E F P A C D \<Longrightarrow> P g s \<Longrightarrow> A g (fst (tokenPromise s)) (snd (tokenPromise s))"
  by (simp_all add: sound_def)

lemma parks_createV1Function:
  assumes "sound W E F P A C D"
  shows "parks P W A C D (createV1Function E F r)"
  unfolding createV1Function_def createV1Function_submit_def
  using sound_kept [OF assms] sound_kept' [OF assms] sound_builds [OF assms]
    sound_precondition [OF assms] sound_tokenPromise [OF assms]
  by (auto intro!: parks_await_task parks_await_then parks_asTask parks_awaitToken
        maintains_reject maintains_getEndpoint simp: kept_def builds_def split: option.split)

lemma parks_updateV1Function:
  assumes "sound W E F P A C D"
  shows "parks P W A C D (updateV1Function E F r)"
  unfolding updateV1Function_def updateV1Function_submit_def
  using sound_kept [OF assms] sound_kept' [OF assms] sound_builds [OF assms]
    sound_precondition [OF assms] sound_tokenPromise [OF assms]
  by (auto intro!: parks_await_task parks_await_then parks_asTask parks_awaitToken
        maintains_reject maintains_getEndpoint simp: kept_def builds_def split: option.split)

lemma parks_createEndpoint:
  assumes "sound W E F P A C D"
  shows "parks P W A C D (createEndpoint E F r)"
  unfolding createEndpoint_def
  using sound_kept [OF assms] sound_kept' [OF assms]
  by (auto intro!: parks_await_task parks_await_then parks_asTask
        parks_createV1Function [OF assms] maintains_getEndpoint
        simp: kept_def split: platform.split)

lemma parks_recreate:
  assumes "sound W E F P A C D"
  shows "parks P W A C D
           (await_then (deleteEndpoint E F old) (\<lambda>_. createEndpoint E F r))"
  using sound_kept [OF assms]
  by (auto intro!: parks_await_then parks_createEndpoint [OF assms] simp: kept_def)

lemma parks_update:
  assumes "sound W E F P A C D"
  shows "parks P W A C D
           (await_then (getEndpoint r) (\<lambda>ep.
              await_task
                (case platform ep of
                   Gcfv1 \<Rightarrow> updateV1Function E F r
                 | Gcfv2 \<Rightarrow> asTask (updateV2Function E F r))
                (\<lambda>_. setTrigger E F r True)))"
  using sound_kept [OF assms] sound_kept' [OF assms]
  by (auto intro!: parks_await_task parks_await_then parks_asTask
        parks_updateV1Function [OF assms] maintains_getEndpoint
        simp: kept_def split: platform.split)

lemma parks_delete:
  assumes "sound W E F P A C D"
  shows "parks P W A C D (asTask (deleteEndpoint E F r))"
  using sound_kept [OF assms] by (auto intro!: parks_asTask simp: kept_def)

subsection \<open>Handled operations\<close>

lemma stop_simps [simp]:
  "snd (stop E r tm (res, s)) = s"
  "endpoint (fst (stop E r tm (res, s))) = r"
  "error (fst (stop E r tm (res, s))) = (case res of Inl e \<Rightarrow> Some e | Inr x \<Rightarrow> None)"
  "durationMs (fst (stop E r tm (res, s))) = now E (trace s) - tm"
  by (simp_all add: stop_def split: sum.splits)

lemma within_stop:
  "within W (fst (stop E r tm (res, s))) = (case res of Inl e \<Rightarrow> W e | Inr x \<Rightarrow> True)"
  by (simp add: within_def split: sum.splits)

lemma goodK_stop:
  assumes "\<And>h tok. yields (C h tok) W (D h) (k tok)"
  shows "goodK C D (within W) (\<lambda>tok s. stop E r tm (k tok s))"
  unfolding goodK_def
proof (intro allI impI)
  fix h tok s assume C: "C h tok s"
  obtain res s' where eq: "k tok s = (res, s')" by (cases "k tok s")
  from yieldsD [OF assms C eq] eq
  show "D h (snd (stop E r tm (k tok s))) \<and> within W (fst (stop E r tm (k tok s)))"
    by (simp add: within_stop)
qed

lemma caught_good:
  assumes m: "parks P W A C D m" and P: "P g s"
  shows "goodH P A C D (within W) g (fst (caught E r tm (m s))) (snd (caught E r tm (m s)))"
proof -
  obtain out s' where eq: "m s = (out, s')" by (cases "m s")
  show ?thesis
  proof (cases out)
    case (Settled res)
    from parks_Settled [OF m P eq [unfolded Settled]] eq Settled show ?thesis
      by (simp add: caught_def goodH_def within_stop)
  next
    case (AwaitsToken p k)
    note d = parks_AwaitsToken [OF m P eq [unfolded AwaitsToken]]
    have "goodK C D (within W) (\<lambda>tok s. stop E r tm (k tok s))"
      by (rule goodK_stop) (rule d(2))
    with d(1) eq AwaitsToken show ?thesis by (simp add: caught_def goodH_def)
  qed
qed

lemma handle_launched:
  assumes m: "parks P W A C D m" and P: "P g s"
  shows "goodL P A C D (within W) g (fst (handle E op r (asBegun m) s))
           (snd (handle E op r (asBegun m) s))"
proof -
  obtain h s' where c: "caught E r (now E (trace s)) (m s) = (h, s')"
    by (cases "caught E r (now E (trace s)) (m s)")
  with caught_good [OF m P, of E r "now E (trace s)"]
  have "goodH P A C D (within W) g h s'" by simp
  moreover from c have "handle E op r (asBegun m) s = (Launched h, s')"
    by (cases "m s") (simp add: handle_def asBegun_def)
  ultimately show ?thesis by (simp add: goodL_def)
qed

lemma handle_updateEndpoint:
  assumes snd: "sound W E F P A C D" and P: "P g s"
  shows "goodL P A C D (within W) g
           (fst (handle E op (u_endpoint u) (updateEndpoint E F u) s))
           (snd (handle E op (u_endpoint u) (updateEndpoint E F u) s))"
proof -
  let ?r = "u_endpoint u" and ?t = "now E (trace s)"
  obtain res s1 where lab: "mergeToolLabels E ?r s = (res, s1)"
    by (cases "mergeToolLabels E ?r s")
  have "maintains (P g) W (mergeToolLabels E ?r)"
    using sound_kept [OF snd, of g] by (simp add: kept_def)
  note d = yieldsD [OF this [unfolded maintains_yields] P lab]
  show ?thesis
  proof (cases res)
    case (Inl e)
    with lab d show ?thesis
      by (simp add: handle_def updateEndpoint_def caught_def goodL_def goodH_def within_stop)
  next
    case (Inr x)
    show ?thesis
    proof (cases "deleteAndRecreate u")
      case (Some old)
      let ?m = "await_then (deleteEndpoint E F old) (\<lambda>_. createEndpoint E F ?r)"
      have "goodD P A C D (within W) (\<lambda>s''. caught E ?r ?t (?m s''))"
        unfolding goodD_def
        by (intro allI impI caught_good [OF parks_recreate [OF snd]])
      with lab Inr Some d(1) show ?thesis
        by (simp add: handle_def updateEndpoint_def goodL_def)
    next
      case None
      let ?m = "await_then (getEndpoint ?r) (\<lambda>ep.
              await_task
                (case platform ep of
                   Gcfv1 \<Rightarrow> updateV1Function E F ?r
                 | Gcfv2 \<Rightarrow> asTask (updateV2Function E F ?r))
                (\<lambda>_. setTrigger E F ?r True))"
      obtain h s' where c: "caught E ?r ?t (?m s1) = (h, s')"
        by (cases "caught E ?r ?t (?m s1)")
      with caught_good [OF parks_update [OF snd, where r = "u_endpoint u"] d(1), where E = E and r = "u_endpoint u"
          and tm = "now E (trace s)"]
      have "goodH P A C D (within W) g h s'" by simp
      moreover from c lab Inr None
      have "handle E op ?r (updateEndpoint E F u) s = (Launched h, s')"
        by (cases "?m s1") (simp add: handle_def updateEndpoint_def asBegun_def)
      ultimately show ?thesis by (simp add: goodL_def)
    qed
  qed
qed

subsection \<open>A batch under one invariant\<close>

lemma noted_goodB:
  assumes "goodH (\<lambda>g::unit. I) (\<lambda>g p. I) (\<lambda>(h::unit) tok. I) (\<lambda>h. I) R g h s"
    and "goodB I R b"
  shows "goodB I R (noted h b)" and "I s"
proof -
  show "goodB I R (noted h b)"
  proof (cases h)
    case (Pushed res)
    with assms show ?thesis by (simp add: noted_def goodB_def goodH_def)
  next
    case (Parked p k)
    with assms show ?thesis
      by (cases p) (simp_all add: noted_def goodB_def goodH_def)
  qed
  from assms(1) show "I s" by (cases h) (simp_all add: goodH_def)
qed

lemma launch_goodB:
  assumes step: "\<And>x s. I s \<Longrightarrow>
      goodL (\<lambda>g::unit. I) (\<lambda>g p. I) (\<lambda>(h::unit) tok. I) (\<lambda>h. I) R ()
        (fst (lnch x s)) (snd (lnch x s))"
    and "I s" and "goodB I R b"
  shows "I (snd (launch lnch xs b s)) \<and> goodB I R (fst (launch lnch xs b s))"
  using assms(2,3)
proof (induction xs arbitrary: b s)
  case Nil
  then show ?case by simp
next
  case (Cons x xs)
  obtain l s' where eq: "lnch x s = (l, s')" by (cases "lnch x s")
  from step [OF Cons.prems(1), of x] eq
  have l: "goodL (\<lambda>g::unit. I) (\<lambda>g p. I) (\<lambda>(h::unit) tok. I) (\<lambda>h. I) R () l s'" by simp
  show ?case
  proof (cases l)
    case (Launched h)
    with l have "goodH (\<lambda>g::unit. I) (\<lambda>g p. I) (\<lambda>(h::unit) tok. I) (\<lambda>h. I) R () h s'"
      by (simp add: goodL_def)
    from noted_goodB [OF this Cons.prems(2)] Cons.IH [of s' "noted h b"] eq Launched
    show ?thesis by simp
  next
    case (Delayed m)
    with l have "I s'"
      and "goodD (\<lambda>g::unit. I) (\<lambda>g p. I) (\<lambda>(h::unit) tok. I) (\<lambda>h. I) R m"
      by (simp_all add: goodL_def)
    with Cons.prems(2) have "goodB I R (b\<lparr>delayed := delayed b @ [m]\<rparr>)"
      by (simp add: goodB_def)
    with Cons.IH [of s' "b\<lparr>delayed := delayed b @ [m]\<rparr>"] \<open>I s'\<close> eq Delayed
    show ?thesis by simp
  qed
qed

lemma afterDeletes_goodB:
  assumes "list_all (goodD (\<lambda>g::unit. I) (\<lambda>g p. I) (\<lambda>(h::unit) tok. I) (\<lambda>h. I) R) ms"
    and "I s" and "goodB I R b"
  shows "I (snd (afterDeletes ms b s)) \<and> goodB I R (fst (afterDeletes ms b s))"
  using assms
proof (induction ms arbitrary: b s)
  case Nil
  then show ?case by simp
next
  case (Cons m ms)
  obtain h s' where eq: "m s = (h, s')" by (cases "m s")
  from Cons.prems(1,2) eq
  have "goodH (\<lambda>g::unit. I) (\<lambda>g p. I) (\<lambda>(h::unit) tok. I) (\<lambda>h. I) R () h s'"
    by (auto simp: goodD_def dest!: spec [where x = s])
  from noted_goodB [OF this Cons.prems(3)] Cons.IH [of s' "noted h b"] Cons.prems(1) eq
  show ?case by simp
qed

lemma resume_good:
  assumes "list_all (\<lambda>tk. goodK (\<lambda>(h::unit) tok. I) (\<lambda>h. I) R (snd tk)) tks"
    and "I s" and "list_all R rs"
  shows "I (snd (resume tks rs s)) \<and> list_all R (fst (resume tks rs s))"
  using assms
proof (induction tks arbitrary: rs s)
  case Nil
  then show ?case by simp
next
  case (Cons tk tks)
  obtain res s' where eq: "snd tk (fst tk) s = (res, s')" by (cases "snd tk (fst tk) s")
  from Cons.prems(1,2) eq have "I s'" and "R res"
    by (auto simp: goodK_def dest!: spec [where x = s] spec [where x = "fst tk"])
  with Cons.IH [of s' "rs @ [res]"] Cons.prems(1,3) eq show ?case by simp
qed

lemma allSettled_goodB:
  assumes "I s" and "goodB I R b"
  shows "I (snd (allSettled b s))
     \<and> (case fst (allSettled b s) of None \<Rightarrow> True | Some rs \<Rightarrow> list_all R rs)"
proof -
  obtain b1 s1 where d: "afterDeletes (delayed b) b s = (b1, s1)"
    by (cases "afterDeletes (delayed b) b s")
  from assms(2) have "list_all (goodD (\<lambda>g::unit. I) (\<lambda>g p. I) (\<lambda>(h::unit) tok. I) (\<lambda>h. I) R)
      (delayed b)"
    by (simp add: goodB_def)
  from afterDeletes_goodB [OF this assms] d have s1: "I s1" and b1: "goodB I R b1"
    by simp_all
  obtain rs2 s2 where r: "resume (ready b1) (deployResults b1) s1 = (rs2, s2)"
    by (cases "resume (ready b1) (deployResults b1) s1")
  from b1 have "list_all (\<lambda>tk. goodK (\<lambda>(h::unit) tok. I) (\<lambda>h. I) R (snd tk)) (ready b1)"
    and "list_all R (deployResults b1)"
    and w: "list_all (goodK (\<lambda>(h::unit) tok. I) (\<lambda>h. I) R) (waiting b1)"
    by (simp_all add: goodB_def)
  from resume_good [OF this(1) s1 this(2)] r have s2: "I s2" and rs2: "list_all R rs2"
    by simp_all
  show ?thesis
  proof (cases "waiting b1")
    case Nil
    with d r s2 rs2 show ?thesis by (simp add: allSettled_def)
  next
    case (Cons k ks)
    show ?thesis
    proof (cases "token (scraper s2)")
      case None
      with d r Cons s2 show ?thesis by (simp add: allSettled_def)
    next
      case (Some tok)
      obtain rs3 s3 where r3: "resume (map (Pair tok) (waiting b1)) rs2 s2 = (rs3, s3)"
        by (cases "resume (map (Pair tok) (waiting b1)) rs2 s2")
      from w have "list_all (\<lambda>tk. goodK (\<lambda>(h::unit) tok. I) (\<lambda>h. I) R (snd tk))
          (map (Pair tok) (waiting b1))"
        by (simp add: list_all_iff)
      from resume_good [OF this s2 rs2] r3 have "I s3" and "list_all R rs3" by simp_all
      with d r Cons Some r3 show ?thesis by (simp add: allSettled_def)
    qed
  qed
qed

lemma goodB_start: "list_all R rs \<Longrightarrow>
    goodB I R \<lparr>deployResults = rs, ready = [], waiting = [], delayed = []\<rparr>"
  by (simp add: goodB_def)

lemma upserts_good:
  assumes snd: "sound W E F (\<lambda>g::unit. I) (\<lambda>g p. I) (\<lambda>(h::unit) tok. I) (\<lambda>h. I)"
    and I: "I s"
  shows "I (snd (upserts E F changes s))
     \<and> (case fst (upserts E F changes s) of
          None \<Rightarrow> True
        | Some rs \<Rightarrow> list_all (within W) rs)"
proof -
  let ?create = "\<lambda>r. handle E ''create'' r (asBegun (createEndpoint E F r))"
  let ?update = "\<lambda>u. handle E ''update'' (u_endpoint u) (updateEndpoint E F u)"
  let ?b0 = "\<lparr>deployResults = [], ready = [], waiting = [], delayed = []\<rparr>"
  obtain b s' where c: "launch ?create (endpointsToCreate changes) ?b0 s = (b, s')"
    by (cases "launch ?create (endpointsToCreate changes) ?b0 s")
  have "goodB I (within W) ?b0" by (rule goodB_start) simp
  from launch_goodB [where lnch = ?create and I = I and R = "within W"
      and xs = "endpointsToCreate changes",
      OF handle_launched [OF parks_createEndpoint [OF snd]] I this] c
  have s': "I s'" and b: "goodB I (within W) b"
    by simp_all
  obtain b' s'' where u: "launch ?update (endpointsToUpdate changes) b s' = (b', s'')"
    by (cases "launch ?update (endpointsToUpdate changes) b s'")
  from launch_goodB [where lnch = ?update and I = I and R = "within W"
      and xs = "endpointsToUpdate changes",
      OF handle_updateEndpoint [OF snd] s' b] u
  have "I s''" and "goodB I (within W) b'"
    by simp_all
  from allSettled_goodB [where I = I, OF this] c u show ?thesis by (simp add: upserts_def)
qed

lemma deletes_good:
  assumes snd: "sound W E F (\<lambda>g::unit. I) (\<lambda>g p. I) (\<lambda>(h::unit) tok. I) (\<lambda>h. I)"
    and I: "I s" and rs: "list_all (within W) rs"
  shows "I (snd (deletes E F changes rs s))
     \<and> (case fst (deletes E F changes rs s) of
          None \<Rightarrow> True
        | Some rs' \<Rightarrow> list_all (within W) rs')"
proof -
  let ?delete = "\<lambda>r. handle E ''delete'' r (asBegun (asTask (deleteEndpoint E F r)))"
  let ?b0 = "\<lparr>deployResults = rs, ready = [], waiting = [], delayed = []\<rparr>"
  obtain b s' where c: "launch ?delete (endpointsToDelete changes) ?b0 s = (b, s')"
    by (cases "launch ?delete (endpointsToDelete changes) ?b0 s")
  from launch_goodB [where lnch = ?delete and I = I and R = "within W"
      and xs = "endpointsToDelete changes",
      OF handle_launched [OF parks_delete [OF snd]] I goodB_start [OF rs]] c
  have "I s'" and "goodB I (within W) b"
    by simp_all
  from allSettled_goodB [where I = I, OF this] c show ?thesis by (simp add: deletes_def)
qed


lemma applyChangeset_good:
  assumes snd: "sound W E F (\<lambda>g::unit. I) (\<lambda>g p. I) (\<lambda>(h::unit) tok. I) (\<lambda>h. I)"
    and I: "I (s\<lparr>scraper := newScraper\<rparr>)"
    and R: "\<And>res. within W res \<Longrightarrow> R res" "\<And>r. R (aborted r)"
  shows "I (snd (applyChangeset E F changes s))
     \<and> (case fst (applyChangeset E F changes s) of
          None \<Rightarrow> True
        | Some res \<Rightarrow> \<exists>rs. res = Inr rs \<and> list_all R rs)"
proof -
  obtain out s1 where up: "upserts E F changes (s\<lparr>scraper := newScraper\<rparr>) = (out, s1)"
    by (cases "upserts E F changes (s\<lparr>scraper := newScraper\<rparr>)")
  from upserts_good [where I = I, OF snd I, of changes] up have s1: "I s1"
    and out: "case out of None \<Rightarrow> True | Some rs \<Rightarrow> list_all (within W) rs"
    by simp_all
  show ?thesis
  proof (cases out)
    case None
    with up s1 show ?thesis by (simp add: applyChangeset_def)
  next
    case (Some rs)
    with out have rs: "list_all (within W) rs" by simp
    then have rs': "list_all R rs" by (simp add: list_all_iff R(1))
    show ?thesis
    proof (cases "find (\<lambda>res. error res \<noteq> None) rs \<noteq> None")
      case True
      have "list_all R (map aborted (endpointsToDelete changes))"
        by (simp add: list_all_iff R(2))
      with True up Some s1 rs' show ?thesis by (simp add: applyChangeset_def)
    next
      case False
      obtain out2 s2 where del: "deletes E F changes rs s1 = (out2, s2)"
        by (cases "deletes E F changes rs s1")
      from deletes_good [where I = I, OF snd s1 rs, of changes] del have s2: "I s2"
        and out2: "case out2 of None \<Rightarrow> True | Some rs' \<Rightarrow> list_all (within W) rs'"
        by simp_all
      show ?thesis
      proof (cases out2)
        case None
        with up Some False del s2 show ?thesis by (simp add: applyChangeset_def)
      next
        case (Some rs2)
        with out2 have "list_all R rs2" by (simp add: list_all_iff R(1))
        with up \<open>out = Some rs\<close> False del Some s2 show ?thesis
          by (simp add: applyChangeset_def)
      qed
    qed
  qed
qed

lemma deployChangesets_good:
  assumes snd: "sound W E F (\<lambda>g::unit. I) (\<lambda>g p. I) (\<lambda>(h::unit) tok. I) (\<lambda>h. I)"
    and fr: "\<And>s. I s \<Longrightarrow> I (s\<lparr>scraper := newScraper\<rparr>)"
    and R: "\<And>res. within W res \<Longrightarrow> R res" "\<And>r. R (aborted r)"
    and I: "I s" and acc: "list_all R (fst acc)"
  shows "I (snd (deployChangesets E F plan acc s))
     \<and> (case fst (deployChangesets E F plan acc s) of
          None \<Rightarrow> True
        | Some out \<Rightarrow> list_all R (fst out))"
  using I acc
proof (induction plan arbitrary: acc s)
  case Nil
  then show ?case by simp
next
  case (Cons changes rest)
  obtain out s' where eq: "applyChangeset E F changes s = (out, s')"
    by (cases "applyChangeset E F changes s")
  from applyChangeset_good [where I = I and R = R, OF snd fr [OF Cons.prems(1)] R, of changes] eq
  have s': "I s'"
    and out: "case out of None \<Rightarrow> True | Some res \<Rightarrow> \<exists>rs. res = Inr rs \<and> list_all R rs"
    by simp_all
  show ?case
  proof (cases out)
    case None
    from Cons.IH [OF s' Cons.prems(2)] eq None show ?thesis by simp
  next
    case (Some res)
    with out obtain rs where rs: "res = Inr rs" "list_all R rs" by auto
    with Cons.prems(2) have "list_all R (fst (fst acc @ rs, snd acc))" by simp
    from Cons.IH [OF s' this] eq Some rs(1) show ?thesis by simp
  qed
qed

lemma applyPlan_good:
  assumes snd: "sound W E F (\<lambda>g::unit. I) (\<lambda>g p. I) (\<lambda>(h::unit) tok. I) (\<lambda>h. I)"
    and fr: "\<And>s. I s \<Longrightarrow> I (s\<lparr>scraper := newScraper\<rparr>)"
    and R: "\<And>res. within W res \<Longrightarrow> R res" "\<And>r. R (aborted r)"
    and I: "I s"
  shows "I (snd (applyPlan E F plan s))
     \<and> (case fst (applyPlan E F plan s) of
          None \<Rightarrow> True
        | Some res \<Rightarrow> \<exists>sm. res = Inr sm \<and> list_all R (results sm))"
proof -
  obtain out s' where eq: "deployChangesets E F plan ([], []) s = (out, s')"
    by (cases "deployChangesets E F plan ([], []) s")
  from deployChangesets_good [where I = I and R = R and acc = "([], [])", OF snd fr R I, of plan] eq
  have "I s'" and "case out of None \<Rightarrow> True | Some out \<Rightarrow> list_all R (fst out)"
    by simp_all
  with eq show ?thesis
    by (cases out) (auto simp: applyPlan_def split: prod.splits)
qed

subsection \<open>Events of an operation\<close>

lemma extends_start: "extends P (trace s) s"
  by (simp add: extends_def)

lemma extends_issuedBy:
  assumes "extends P (trace s) (snd (m s))"
  shows "trace (snd (m s)) = trace s @ issuedBy m s" and "list_all P (issuedBy m s)"
proof -
  from assms have "take (length (trace s)) (trace (snd (m s))) = trace s"
    by (simp add: extends_def)
  then show "trace (snd (m s)) = trace s @ issuedBy m s"
    unfolding issuedBy_def by (metis append_take_drop_id)
  from assms show "list_all P (issuedBy m s)" by (simp add: extends_def issuedBy_def)
qed

lemma extends_record_event:
  assumes "extends P base s" and "P ev"
  shows "extends P base (record_event ev s)"
proof -
  from assms(1) have t: "take (length base) (trace s) = base"
    and d: "list_all P (drop (length base) (trace s))"
    by (simp_all add: extends_def)
  have len: "length base \<le> length (trace s)"
    using arg_cong [OF t, of length] by simp
  with t d assms(2) show ?thesis
    by (simp add: extends_def record_event_def)
qed

lemma extends_frame [simp]:
  "extends P base (s\<lparr>heap := h\<rparr>) = extends P base s"
  "extends P base (s\<lparr>scraper := sc\<rparr>) = extends P base s"
  "extends P base (s\<lparr>triggerQueue := q\<rparr>) = extends P base s"
  by (simp_all add: extends_def)

lemma extends_feed:
  "extends P base s \<Longrightarrow> P (Polled t) \<Longrightarrow> extends P base (feed t s)"
  by (simp add: feed_def extends_record_event)

subsection \<open>Quiet invariants\<close>

lemma quiet_neutral: "quiet I \<Longrightarrow> neutral c \<Longrightarrow> I s \<Longrightarrow> I (record_event (Issued c) s)"
  by (simp add: quiet_def)

lemma quiet_heap: "quiet I \<Longrightarrow> I s \<Longrightarrow> I (s\<lparr>heap := h\<rparr>)"
  by (simp add: quiet_def)

lemma quiet_triggerQueue: "quiet I \<Longrightarrow> I s \<Longrightarrow> I (s\<lparr>triggerQueue := q\<rparr>)"
  by (simp add: quiet_def)

lemma qt_issue: "quiet I \<Longrightarrow> neutral c \<Longrightarrow> maintains I (\<lambda>e. True) (issue E c)"
  by (simp add: maintains_def issue_def quiet_neutral split: option.splits)

lemma qt_issueOperation:
  "quiet I \<Longrightarrow> neutral c \<Longrightarrow> maintains I (\<lambda>e. True) (issueOperation E c)"
  by (simp add: maintains_def issueOperation_def quiet_neutral split: sum.splits)

lemma qt_run_getService: "quiet I \<Longrightarrow> maintains I (\<lambda>e. True) (run_getService E n)"
  by (simp add: maintains_def run_getService_def quiet_neutral split: sum.splits)

lemma qt_pollOperationV2: "quiet I \<Longrightarrow> maintains I (\<lambda>e. True) (pollOperationV2 E opts)"
  by (simp add: maintains_def pollOperationV2_def quiet_neutral split: sum.splits)

lemma qt_pollOperationVoid: "quiet I \<Longrightarrow> maintains I (\<lambda>e. True) (pollOperationVoid E opts)"
  by (simp add: maintains_def pollOperationVoid_def quiet_neutral split: option.splits)

lemma qt_setUri: "quiet I \<Longrightarrow> maintains I W (setUri r u)"
  by (simp add: maintains_def setUri_def quiet_heap)

lemma qt_setLabels: "quiet I \<Longrightarrow> maintains I W (setLabels r l)"
  by (simp add: maintains_def setLabels_def quiet_heap)

lemma qt_enqueue:
  assumes "quiet I" and "maintains I (\<lambda>e. True) fn"
  shows "maintains I (\<lambda>e. True) (enqueue fn)"
  unfolding maintains_def
proof (intro allI impI)
  fix s assume I: "I s"
  with assms(2) have "I (snd (fn s))" by (simp add: maintains_def)
  with I assms(1) show "I (snd (enqueue fn s)) \<and>
        (case fst (enqueue fn s) of Inl e \<Rightarrow> True | Inr x \<Rightarrow> True)"
    by (cases "fn s") (auto simp: enqueue_def quiet_triggerQueue split: option.splits sum.splits)
qed

lemmas qt_rules =
  maintains_resolve maintains_reject maintains_await maintains_catch maintains_run
  maintains_rethrowAs maintains_getEndpoint
  qt_issue qt_issueOperation qt_run_getService qt_pollOperationV2
  qt_pollOperationVoid qt_setUri qt_setLabels qt_enqueue

lemma qt_setConcurrency: "quiet I \<Longrightarrow> maintains I (\<lambda>e. True) (setConcurrency E r n c)"
  unfolding setConcurrency_def by (auto intro!: qt_rules)

lemma qt_createV1Function_invoker:
  "quiet I \<Longrightarrow> maintains I (\<lambda>e. True) (createV1Function_invoker E r)"
  unfolding createV1Function_invoker_def Let_def
  by (auto intro!: qt_rules split: triggered.split option.split)

lemma qt_updateV1Function_invoker:
  "quiet I \<Longrightarrow> maintains I (\<lambda>e. True) (updateV1Function_invoker E r)"
  unfolding updateV1Function_invoker_def
  by (auto intro!: qt_rules split: option.split)

lemma qt_createV2Function_submit:
  "quiet I \<Longrightarrow> maintains I (\<lambda>e. True) (createV2Function_submit E F r)"
  unfolding createV2Function_submit_def createTopic_def Let_def
  by (auto intro!: qt_rules split: option.split)

lemma qt_createV2Function_invoker:
  "quiet I \<Longrightarrow> maintains I (\<lambda>e. True) (createV2Function_invoker E r n)"
  unfolding createV2Function_invoker_def Let_def
  by (auto intro!: qt_rules split: triggered.split option.split)

lemma qt_createV2Function_concurrency:
  "quiet I \<Longrightarrow> maintains I (\<lambda>e. True) (createV2Function_concurrency E r n)"
  unfolding createV2Function_concurrency_def Let_def
  by (auto intro!: qt_rules qt_setConcurrency split: option.split)

lemma qt_createV2Function: "quiet I \<Longrightarrow> maintains I (\<lambda>e. True) (createV2Function E F r)"
  unfolding createV2Function_def
  by (intro maintains_await qt_createV2Function_submit qt_createV2Function_invoker
        qt_createV2Function_concurrency)

lemma qt_updateV2Function: "quiet I \<Longrightarrow> maintains I (\<lambda>e. True) (updateV2Function E F r)"
  unfolding updateV2Function_def updateV2Function_submit_def updateV2Function_invoker_def
    updateV2Function_concurrency_def
  by (auto intro!: qt_rules qt_setConcurrency split: option.split)

lemma qt_deleteV1Function: "quiet I \<Longrightarrow> maintains I (\<lambda>e. True) (deleteV1Function E r)"
  unfolding deleteV1Function_def by (auto intro!: qt_rules)

lemma qt_deleteV2Function: "quiet I \<Longrightarrow> maintains I (\<lambda>e. True) (deleteV2Function E r)"
  unfolding deleteV2Function_def by (auto intro!: qt_rules)

lemma qt_setTrigger: "quiet I \<Longrightarrow> maintains I (\<lambda>e. True) (setTrigger E F r update)"
  unfolding setTrigger_def upsertScheduleV1_def upsertScheduleV2_def upsertTaskQueue_def
    registerBlockingTrigger_def
  by (auto intro!: qt_rules split: triggered.split option.split platform.split)

lemma qt_deleteTrigger: "quiet I \<Longrightarrow> maintains I (\<lambda>e. True) (deleteTrigger E F r)"
  unfolding deleteTrigger_def deleteScheduleV1_def deleteScheduleV2_def disableTaskQueue_def
    unregisterBlockingTrigger_def
  by (auto intro!: qt_rules split: triggered.split option.split platform.split)

lemma qt_mergeToolLabels: "quiet I \<Longrightarrow> maintains I (\<lambda>e. True) (mergeToolLabels E r)"
  unfolding mergeToolLabels_def by (auto intro!: qt_rules)

lemma qt_deleteEndpoint: "quiet I \<Longrightarrow> maintains I (\<lambda>e. True) (deleteEndpoint E F r)"
  unfolding deleteEndpoint_def
  by (auto intro!: qt_rules qt_deleteTrigger qt_deleteV1Function qt_deleteV2Function)

lemma kept_quiet: "quiet I \<Longrightarrow> kept (\<lambda>e. True) E F I"
  unfolding kept_def
  by (intro allI conjI qt_mergeToolLabels qt_createV2Function qt_updateV2Function
        qt_setTrigger qt_deleteEndpoint qt_createV1Function_invoker
        qt_updateV1Function_invoker)

text \<open>
  An invariant that is quiet and that every poll handed to the scraper, every create or
  update call of the v1 platform and every write to the scraper keep holds throughout.
\<close>

lemma sound_steady:
  assumes q: "quiet I"
    and fd: "\<And>s t. I s \<Longrightarrow> I (feed t s)"
    and cr: "\<And>s f tok. I s \<Longrightarrow>
               I (record_event
                    (Issued (GcfCreateFunction ((requireHttps f)\<lparr>sourceToken := tok\<rparr>))) s)"
    and up: "\<And>s f tok. I s \<Longrightarrow>
               I (record_event (Issued (GcfUpdateFunction (f\<lparr>sourceToken := tok\<rparr>))) s)"
    and sc: "\<And>s sc. I s \<Longrightarrow> I (s\<lparr>scraper := sc\<rparr>)"
  shows "sound (\<lambda>e. True) E F (\<lambda>g::unit. I) (\<lambda>g p. I) (\<lambda>(h::unit) tok. I) (\<lambda>h. I)"
proof -
  have "builds (\<lambda>e. True) E (\<lambda>tok. I) I"
    by (rule builds_intro) (simp_all add: quiet_neutral [OF q] quiet_heap [OF q] fd cr up)
  then show ?thesis
    by (simp add: sound_def kept_quiet [OF q] tokenPromise_def sc)
qed

lemma quiet_extends:
  assumes "\<And>c. neutral c \<Longrightarrow> P (Issued c)"
  shows "quiet (extends P base)"
  unfolding quiet_def by (simp add: assms extends_record_event)

lemma sound_extends:
  assumes "\<And>c. neutral c \<Longrightarrow> P (Issued c)"
    and "\<And>f tok. P (Issued (GcfCreateFunction ((requireHttps f)\<lparr>sourceToken := tok\<rparr>)))"
    and "\<And>f tok. P (Issued (GcfUpdateFunction (f\<lparr>sourceToken := tok\<rparr>)))"
    and "\<And>t. P (Polled t)"
  shows "sound (\<lambda>e. True) E F (\<lambda>g::unit. extends P base) (\<lambda>g p. extends P base)
           (\<lambda>(h::unit) tok. extends P base) (\<lambda>h. extends P base)"
  by (rule sound_steady)
     (simp_all add: quiet_extends assms extends_record_event extends_feed)

lemma secureCreate_neutral: "neutral c \<Longrightarrow> secureCreate (Issued c)"
  by (cases c) simp_all

lemma sound_secureCreate:
  "sound (\<lambda>e. True) E F (\<lambda>g::unit. extends secureCreate base)
     (\<lambda>g p. extends secureCreate base) (\<lambda>(h::unit) tok. extends secureCreate base)
     (\<lambda>h. extends secureCreate base)"
  by (rule sound_extends)
     (simp_all add: secureCreate_neutral requireHttps_def split: option.splits)

lemma applyPlan_secureCreate:
  "list_all secureCreate (issuedBy (applyPlan E F plan) s)"
proof -
  have "extends secureCreate (trace s) (snd (applyPlan E F plan s))"
    by (rule applyPlan_good [where I = "extends secureCreate (trace s)" and W = "\<lambda>e. True"
          and R = "\<lambda>res. True", OF sound_secureCreate, THEN conjunct1])
       (simp_all add: extends_start)
  then show ?thesis by (rule extends_issuedBy(2))
qed

subsection \<open>The trace only grows\<close>

lemma quiet_any: "quiet (extends (\<lambda>ev. True) base)"
  by (rule quiet_extends) simp

lemma grows:
  assumes "\<And>base. maintains (extends (\<lambda>ev. True) base) (\<lambda>e. True) m"
  shows "trace (snd (m s)) = trace s @ issuedBy m s"
proof -
  from assms [of "trace s"] extends_start [of "\<lambda>ev. True" s]
  have "extends (\<lambda>ev. True) (trace s) (snd (m s))" by (simp add: maintains_def)
  then show ?thesis by (rule extends_issuedBy(1))
qed

lemma builds_any:
  "builds (\<lambda>e. True) E (\<lambda>tok. extends (\<lambda>ev. True) base) (extends (\<lambda>ev. True) base)"
  by (rule builds_intro) (simp_all add: extends_record_event extends_feed)

lemma grows_createV1Function_build:
  "trace (snd (createV1Function_build E r (requireHttps f) tok s)) =
     trace s @ issuedBy (createV1Function_build E r (requireHttps f) tok) s"
proof -
  from builds_any [of E "trace s"] extends_start [of "\<lambda>ev. True" s]
  have "extends (\<lambda>ev. True) (trace s)
      (snd (createV1Function_build E r (requireHttps f) tok s))"
    by (simp add: builds_def yields_def)
  then show ?thesis by (rule extends_issuedBy(1))
qed

lemma issuedBy_await:
  assumes "trace (snd (m s)) = trace s @ issuedBy m s"
    and "\<And>x. trace (snd (f x (snd (m s)))) = trace (snd (m s)) @ issuedBy (f x) (snd (m s))"
  shows "issuedBy (await m f) s =
           issuedBy m s @ (case fst (m s) of Inl e \<Rightarrow> [] | Inr x \<Rightarrow> issuedBy (f x) (snd (m s)))"
proof (cases "m s")
  case (Pair out s1)
  show ?thesis
  proof (cases out)
    case (Inl e)
    with Pair show ?thesis by (simp add: issuedBy_def await_def)
  next
    case (Inr x)
    from assms(1) Pair have 1: "trace s1 = trace s @ issuedBy m s" by simp
    from assms(2) [of x] Pair have 2: "trace (snd (f x s1)) = trace s1 @ issuedBy (f x) s1" by simp
    from Pair Inr have "issuedBy (await m f) s = drop (length (trace s)) (trace (snd (f x s1)))"
      by (simp add: issuedBy_def await_def)
    also have "\<dots> = issuedBy m s @ issuedBy (f x) s1" by (simp add: 1 2)
    finally show ?thesis using Pair Inr by simp
  qed
qed

lemmas grows_createV1Function_invoker =
  grows [OF qt_createV1Function_invoker [OF quiet_any]]
lemmas grows_createV2Function_submit =
  grows [OF qt_createV2Function_submit [OF quiet_any]]
lemmas grows_createV2Function_invoker =
  grows [OF qt_createV2Function_invoker [OF quiet_any]]
lemmas grows_createV2Function_concurrency =
  grows [OF qt_createV2Function_concurrency [OF quiet_any]]

subsection \<open>After the token\<close>

lemma resumed_createV1Function_submit:
  assumes "sourceUrl F = Some u" and "u \<noteq> []"
  shows "resumed (createV1Function_submit E F r) s0 tok =
           createV1Function_build E r (requireHttps (gcf_functionFromEndpoint E (heap s0 r) u)) tok"
    and "createV1Function_submit E F r s0 =
           (AwaitsToken (fst (tokenPromise s0))
              (createV1Function_build E r
                 (requireHttps (gcf_functionFromEndpoint E (heap s0 r) u))),
            snd (tokenPromise s0))"
  using assms
  by (simp_all add: resumed_def createV1Function_submit_def await_then_def getEndpoint_def
      awaitToken_def split: prod.splits)

lemma resumed_updateV1Function_submit:
  assumes "sourceUrl F = Some u" and "u \<noteq> []"
  shows "resumed (updateV1Function_submit E F r) s0 tok =
           updateV1Function_build E r (gcf_functionFromEndpoint E (heap s0 r) u) tok"
    and "updateV1Function_submit E F r s0 =
           (AwaitsToken (fst (tokenPromise s0))
              (updateV1Function_build E r (gcf_functionFromEndpoint E (heap s0 r) u)),
            snd (tokenPromise s0))"
  using assms
  by (simp_all add: resumed_def updateV1Function_submit_def await_then_def getEndpoint_def
      awaitToken_def split: prod.splits)

lemma v1_precondition:
  assumes "sourceUrl F = None \<or> sourceUrl F = Some []"
  shows "createV1Function E F r s = (Settled (Inl (PlainError ''Precondition failed'')), s)"
    and "updateV1Function E F r s = (Settled (Inl (PlainError ''Precondition failed'')), s)"
    and "createV1Function_submit E F r s =
           (Settled (Inl (PlainError ''Precondition failed'')), s)"
  using assms
  by (auto simp: createV1Function_def createV1Function_submit_def updateV1Function_def
      updateV1Function_submit_def await_task_def asTask_def reject_def)

lemma v2_precondition:
  assumes "storage F = None"
  shows "createV2Function E F r s = (Inl (PlainError ''Precondition failed''), s)"
    and "updateV2Function E F r s = (Inl (PlainError ''Precondition failed''), s)"
  using assms
  by (auto simp: createV2Function_def createV2Function_submit_def updateV2Function_def
      updateV2Function_submit_def await_def reject_def)

lemma await_rejected: "await (\<lambda>s. (Inl e, s)) f = (\<lambda>s. (Inl e, s))"
  by (rule ext) (simp add: await_def)

lemma resumed_createV1Function:
  "resumed (createV1Function E F r) s0 tok =
     await (resumed (createV1Function_submit E F r) s0 tok) (\<lambda>_. createV1Function_invoker E r)"
proof (cases "sourceUrl F = None \<or> sourceUrl F = Some []")
  case True
  from v1_precondition(1,3) [OF this, of E r s0] show ?thesis
    by (simp add: resumed_def await_rejected)
next
  case False
  then obtain u where u: "sourceUrl F = Some u" "u \<noteq> []" by auto
  from resumed_createV1Function_submit(2) [OF u, of E r s0] show ?thesis
    by (simp add: resumed_def createV1Function_def await_task_def)
qed

text \<open>Nothing is issued before the token is there.\<close>

lemma trace_createV1Function [simp]: "trace (snd (createV1Function E F r s)) = trace s"
proof (cases "sourceUrl F = None \<or> sourceUrl F = Some []")
  case True
  from v1_precondition(1) [OF this, of E r s] show ?thesis by simp
next
  case False
  then obtain u where u: "sourceUrl F = Some u" "u \<noteq> []" by auto
  from resumed_createV1Function_submit(2) [OF u, of E r s] show ?thesis
    by (simp add: createV1Function_def await_task_def tokenPromise_def)
qed

lemma grows_resumed_createV1Function_submit:
  "trace (snd (resumed (createV1Function_submit E F r) s0 tok s)) =
     trace s @ issuedBy (resumed (createV1Function_submit E F r) s0 tok) s"
proof (cases "sourceUrl F = None \<or> sourceUrl F = Some []")
  case True
  from v1_precondition(3) [OF this, of E r s0] show ?thesis
    by (simp add: resumed_def issuedBy_def)
next
  case False
  then obtain u where u: "sourceUrl F = Some u" "u \<noteq> []" by auto
  show ?thesis
    unfolding resumed_createV1Function_submit(1) [OF u]
    by (rule grows_createV1Function_build)
qed

lemma issuedBy_createV1Function:
  "issuedBy (resumed (createV1Function E F r) s0 tok) s =
     issuedBy (resumed (createV1Function_submit E F r) s0 tok) s @
       (case fst (resumed (createV1Function_submit E F r) s0 tok s) of
          Inl e \<Rightarrow> []
        | Inr x \<Rightarrow> issuedBy (createV1Function_invoker E r)
                    (snd (resumed (createV1Function_submit E F r) s0 tok s)))"
  unfolding resumed_createV1Function
  by (rule issuedBy_await [OF grows_resumed_createV1Function_submit
        grows_createV1Function_invoker])

lemma grows_createV2Function_tail:
  "trace (snd (await (createV2Function_invoker E r n)
                 (\<lambda>_. createV2Function_concurrency E r n) s)) =
     trace s @ issuedBy (await (createV2Function_invoker E r n)
                 (\<lambda>_. createV2Function_concurrency E r n)) s"
  by (rule grows) (intro maintains_await qt_createV2Function_invoker
        qt_createV2Function_concurrency quiet_any)

lemma issuedBy_createV2Function:
  assumes "fst (createV2Function_submit E F r s) = Inr n"
  shows "issuedBy (createV2Function E F r) s =
     issuedBy (createV2Function_submit E F r) s @
     issuedBy (createV2Function_invoker E r n) (snd (createV2Function_submit E F r s)) @
       (case fst (createV2Function_invoker E r n (snd (createV2Function_submit E F r s))) of
          Inl e \<Rightarrow> []
        | Inr x \<Rightarrow>
            issuedBy (createV2Function_concurrency E r n)
              (snd (createV2Function_invoker E r n (snd (createV2Function_submit E F r s)))))"
proof -
  have "issuedBy (createV2Function E F r) s =
      issuedBy (createV2Function_submit E F r) s @
        (case fst (createV2Function_submit E F r s) of
           Inl e \<Rightarrow> []
         | Inr n \<Rightarrow>
             issuedBy (await (createV2Function_invoker E r n)
                         (\<lambda>_. createV2Function_concurrency E r n))
               (snd (createV2Function_submit E F r s)))"
    unfolding createV2Function_def
    by (rule issuedBy_await [OF grows_createV2Function_submit grows_createV2Function_tail])
  with assms have "issuedBy (createV2Function E F r) s =
      issuedBy (createV2Function_submit E F r) s @
        issuedBy (await (createV2Function_invoker E r n)
                    (\<lambda>_. createV2Function_concurrency E r n))
          (snd (createV2Function_submit E F r s))"
    by simp
  also have "issuedBy (await (createV2Function_invoker E r n)
                    (\<lambda>_. createV2Function_concurrency E r n))
          (snd (createV2Function_submit E F r s)) =
     issuedBy (createV2Function_invoker E r n) (snd (createV2Function_submit E F r s)) @
       (case fst (createV2Function_invoker E r n (snd (createV2Function_submit E F r s))) of
          Inl e \<Rightarrow> []
        | Inr x \<Rightarrow>
            issuedBy (createV2Function_concurrency E r n)
              (snd (createV2Function_invoker E r n (snd (createV2Function_submit E F r s)))))"
    by (rule issuedBy_await [OF grows_createV2Function_invoker
          grows_createV2Function_concurrency])
  finally show ?thesis .
qed

subsection \<open>Where the invoker is set\<close>

lemma ex_issue: "P (Issued c) \<Longrightarrow> maintains (extends P base) (\<lambda>e. True) (issue E c)"
  by (simp add: maintains_def issue_def extends_record_event split: option.splits)

lemma ex_issueOperation:
  "P (Issued c) \<Longrightarrow> maintains (extends P base) (\<lambda>e. True) (issueOperation E c)"
  by (simp add: maintains_def issueOperation_def extends_record_event split: sum.splits)

lemma ex_run_getService:
  "P (Issued (RunGetService n)) \<Longrightarrow> maintains (extends P base) (\<lambda>e. True) (run_getService E n)"
  by (simp add: maintains_def run_getService_def extends_record_event split: sum.splits)

lemma ex_pollOperationV2:
  "P (Issued (PollOperation opts)) \<Longrightarrow>
     maintains (extends P base) (\<lambda>e. True) (pollOperationV2 E opts)"
  by (simp add: maintains_def pollOperationV2_def extends_record_event split: sum.splits)

lemma ex_setUri: "maintains (extends P base) W (setUri r u)"
  by (simp add: maintains_def setUri_def)

lemmas ex_rules =
  maintains_resolve maintains_reject maintains_await maintains_catch maintains_run
  maintains_rethrowAs maintains_getEndpoint
  ex_issue ex_issueOperation ex_run_getService ex_pollOperationV2 ex_setUri

lemma filter_none: "list_all (\<lambda>ev. \<not> P ev) xs \<Longrightarrow> filter P xs = []"
  by (induction xs) simp_all

lemma ex_pollOperationV1:
  "P (Issued (PollOperation opts)) \<Longrightarrow> (\<And>t. P (Polled t)) \<Longrightarrow>
     maintains (extends P base) (\<lambda>e. True) (pollOperationV1 E opts)"
  by (simp add: maintains_def pollOperationV1_def extends_record_event extends_feed
      fold_feed_keeps split: sum.splits prod.splits)

lemma no_invoker_createV1Function_build:
  "filter isSetInvokerCreate (issuedBy (createV1Function_build E r f tok) s) = []"
proof -
  have "maintains (extends (\<lambda>ev. \<not> isSetInvokerCreate ev) (trace s)) (\<lambda>e. True)
     (createV1Function_build E r f tok)"
    unfolding createV1Function_build_def
    by (auto intro!: ex_rules ex_pollOperationV1)
  with extends_start [of "\<lambda>ev. \<not> isSetInvokerCreate ev" s]
  have "extends (\<lambda>ev. \<not> isSetInvokerCreate ev) (trace s)
      (snd (createV1Function_build E r f tok s))"
    by (simp add: maintains_def)
  from filter_none [OF extends_issuedBy(2)
      [where m = "createV1Function_build E r f tok" and s = s, OF this]]
  show ?thesis .
qed

lemma no_invoker_createV1Function_submit:
  "filter isSetInvokerCreate (issuedBy (resumed (createV1Function_submit E F r) s0 tok) s) = []"
proof (cases "sourceUrl F = None \<or> sourceUrl F = Some []")
  case True
  from v1_precondition(3) [OF this, of E r s0] show ?thesis
    by (simp add: resumed_def issuedBy_def)
next
  case False
  then obtain u where u: "sourceUrl F = Some u" "u \<noteq> []" by auto
  show ?thesis
    unfolding resumed_createV1Function_submit(1) [OF u]
    by (rule no_invoker_createV1Function_build)
qed

lemma no_invoker_createV2Function_submit:
  "filter isSetInvokerCreate (issuedBy (createV2Function_submit E F r) s) = []"
proof -
  have "maintains (extends (\<lambda>ev. \<not> isSetInvokerCreate ev) (trace s)) (\<lambda>e. True)
     (createV2Function_submit E F r)"
    unfolding createV2Function_submit_def createTopic_def Let_def
    by (auto intro!: ex_rules split: option.split)
  with extends_start [of "\<lambda>ev. \<not> isSetInvokerCreate ev" s]
  have "extends (\<lambda>ev. \<not> isSetInvokerCreate ev) (trace s)
      (snd (createV2Function_submit E F r s))"
    by (simp add: maintains_def)
  from filter_none [OF extends_issuedBy(2)
      [where m = "createV2Function_submit E F r" and s = s, OF this]]
  show ?thesis .
qed

lemma no_invoker_createV2Function_concurrency:
  "filter isSetInvokerCreate (issuedBy (createV2Function_concurrency E r n) s) = []"
proof -
  have "maintains (extends (\<lambda>ev. \<not> isSetInvokerCreate ev) (trace s)) (\<lambda>e. True)
     (createV2Function_concurrency E r n)"
    unfolding createV2Function_concurrency_def setConcurrency_def Let_def
    by (auto intro!: ex_rules split: option.split)
  with extends_start [of "\<lambda>ev. \<not> isSetInvokerCreate ev" s]
  have "extends (\<lambda>ev. \<not> isSetInvokerCreate ev) (trace s)
      (snd (createV2Function_concurrency E r n s))"
    by (simp add: maintains_def)
  from filter_none [OF extends_issuedBy(2)
      [where m = "createV2Function_concurrency E r n" and s = s, OF this]]
  show ?thesis .
qed

lemmas no_invoker_events =
  no_invoker_createV1Function_submit no_invoker_createV2Function_submit
  no_invoker_createV2Function_concurrency

lemma issuedBy_createV1Function_invoker:
  "issuedBy (createV1Function_invoker E r) s =
     (case trigger (heap s r) of
        HttpsTriggered given \<Rightarrow>
          (let invoker = (case given of Some i \<Rightarrow> i | None \<Rightarrow> [''public'']) in
           if ''private'' \<in> set invoker then []
           else [Issued (GcfSetInvokerCreate (project (heap s r)) (functionName E (heap s r))
                   invoker)])
      | CallableTriggered \<Rightarrow>
          [Issued (GcfSetInvokerCreate (project (heap s r)) (functionName E (heap s r))
             [''public''])]
      | TaskQueueTriggered given \<Rightarrow>
          (case given of
             None \<Rightarrow> []
           | Some invoker \<Rightarrow>
               if ''private'' \<in> set invoker then []
               else [Issued (GcfSetInvokerCreate (project (heap s r))
                       (functionName E (heap s r)) invoker)])
      | BlockingTriggered eventType \<Rightarrow>
          if eventType \<in> set (AUTH_BLOCKING_EVENTS E)
          then [Issued (GcfSetInvokerCreate (project (heap s r)) (functionName E (heap s r))
                  [''public''])]
          else []
      | ScheduleTriggered \<Rightarrow> []
      | EventTriggered \<Rightarrow> [])"
  by (simp add: issuedBy_def createV1Function_invoker_def resolve_def reject_def await_def
      catch_def rethrowAs_def run_def getEndpoint_def issue_def record_event_def Let_def
      split: triggered.splits option.splits)

lemma issuedBy_createV2Function_invoker:
  "issuedBy (createV2Function_invoker E r n) s =
     (case trigger (heap s r) of
        HttpsTriggered given \<Rightarrow>
          (let invoker = (case given of Some i \<Rightarrow> i | None \<Rightarrow> [''public'']) in
           if ''private'' \<in> set invoker then []
           else [Issued (RunSetInvokerCreate (project (heap s r)) n invoker)])
      | CallableTriggered \<Rightarrow> [Issued (RunSetInvokerCreate (project (heap s r)) n [''public''])]
      | TaskQueueTriggered given \<Rightarrow>
          (case given of
             None \<Rightarrow> []
           | Some invoker \<Rightarrow>
               if ''private'' \<in> set invoker then []
               else [Issued (RunSetInvokerCreate (project (heap s r)) n invoker)])
      | BlockingTriggered eventType \<Rightarrow>
          if eventType \<in> set (AUTH_BLOCKING_EVENTS E)
          then [Issued (RunSetInvokerCreate (project (heap s r)) n [''public''])]
          else []
      | ScheduleTriggered \<Rightarrow> []
      | EventTriggered \<Rightarrow> [])"
  by (simp add: issuedBy_def createV2Function_invoker_def resolve_def reject_def await_def
      catch_def rethrowAs_def run_def getEndpoint_def issue_def record_event_def Let_def
      split: triggered.splits option.splits)

subsection \<open>The events of a build\<close>

lemma trace_fold_feed: "trace (fold feed ts s) = trace s @ map Polled ts"
  by (induction ts arbitrary: s) (simp_all add: feed_def record_event_def)

lemma scraper_fold_feed: "scraper (fold feed ts s) = fold poller ts (scraper s)"
  by (induction ts arbitrary: s) (simp_all add: feed_def record_event_def)

lemma createV1Function_build_events:
  assumes "d = apiFunction\<lparr>sourceToken := tok\<rparr>"
    and "startOperation E (trace s) (GcfCreateFunction d) = Inr opName"
    and "opts = gcfV1PollerOptions (''create-'' @ region (heap s r) @ ''-'' @ id' (heap s r))
                  opName True"
    and "ticks = fst (pollV1 E (trace s @ [Issued (GcfCreateFunction d)]) opts)"
  shows "issuedBy (createV1Function_build E r apiFunction tok) s =
           Issued (GcfCreateFunction d) # Issued (PollOperation opts) # map Polled ticks"
    and "scraper (snd (createV1Function_build E r apiFunction tok s)) =
           fold poller ticks (scraper s)"
  using assms
  by (auto simp: issuedBy_def createV1Function_build_def resolve_def reject_def await_def
      catch_def rethrowAs_def run_def getEndpoint_def issueOperation_def
      pollOperationV1_def setUri_def gcfV1PollerOptions_def record_event_def trace_fold_feed
      scraper_fold_feed split: sum.splits prod.splits option.splits)

lemma updateV1Function_build_events:
  assumes "d = apiFunction\<lparr>sourceToken := tok\<rparr>"
    and "startOperation E (trace s) (GcfUpdateFunction d) = Inr opName"
    and "opts = gcfV1PollerOptions (''update-'' @ region (heap s r) @ ''-'' @ id' (heap s r))
                  opName True"
    and "ticks = fst (pollV1 E (trace s @ [Issued (GcfUpdateFunction d)]) opts)"
  shows "issuedBy (updateV1Function_build E r apiFunction tok) s =
           Issued (GcfUpdateFunction d) # Issued (PollOperation opts) # map Polled ticks"
    and "scraper (snd (updateV1Function_build E r apiFunction tok s)) =
           fold poller ticks (scraper s)"
  using assms
  by (auto simp: issuedBy_def updateV1Function_build_def resolve_def reject_def await_def
      catch_def rethrowAs_def run_def getEndpoint_def issueOperation_def
      pollOperationV1_def setUri_def gcfV1PollerOptions_def record_event_def trace_fold_feed
      scraper_fold_feed split: sum.splits prod.splits option.splits)

lemma createV1Function_build_first:
  "\<exists>rest. trace (snd (createV1Function_build E r apiFunction tok s)) =
     trace s @ Issued (GcfCreateFunction (apiFunction\<lparr>sourceToken := tok\<rparr>)) # rest"
  by (auto simp: createV1Function_build_def resolve_def reject_def await_def catch_def
      rethrowAs_def run_def getEndpoint_def issueOperation_def
      pollOperationV1_def setUri_def gcfV1PollerOptions_def record_event_def trace_fold_feed
      split: sum.splits prod.splits option.splits)

lemma createV1Function_first:
  assumes "sourceUrl F = Some u" and "u \<noteq> []"
  shows "take 1 (issuedBy (resumed (createV1Function E F r) s0 tok) s) =
           [Issued (GcfCreateFunction
              ((requireHttps (gcf_functionFromEndpoint E (heap s0 r) u))
                 \<lparr>sourceToken := tok\<rparr>))]"
proof -
  let ?f = "requireHttps (gcf_functionFromEndpoint E (heap s0 r) u)"
  let ?c = "Issued (GcfCreateFunction (?f\<lparr>sourceToken := tok\<rparr>))"
  from createV1Function_build_first [of E r ?f tok s] obtain rest where
    "trace (snd (createV1Function_build E r ?f tok s)) = trace s @ ?c # rest" by blast
  then have "issuedBy (createV1Function_build E r ?f tok) s = ?c # rest"
    by (simp add: issuedBy_def)
  then show ?thesis
    unfolding issuedBy_createV1Function resumed_createV1Function_submit(1) [OF assms]
    by simp
qed

subsection \<open>Errors in the results\<close>

lemma reportable_recorded: "reportable e \<Longrightarrow> recorded e"
  by (auto simp: reportable_def recorded_def)


lemma within_reportable: "within reportable res = settled res"
  by (simp add: within_def settled_def)


lemma settled_wellReported: "settled res \<Longrightarrow> wellReported res"
  by (auto simp: settled_def wellReported_def split: option.splits dest: reportable_recorded)

lemma wellReported_aborted: "wellReported (aborted r)"
  by (simp add: wellReported_def aborted_def recorded_def)

lemma applyPlan_wellReported:
  assumes "wrappedQueue s"
  shows "case fst (applyPlan E F plan s) of
           None \<Rightarrow> True
         | Some res \<Rightarrow> \<exists>sm. res = Inr sm \<and> list_all wellReported (results sm)"
  by (rule applyPlan_good [where I = wrappedQueue and W = reportable and R = wellReported,
        OF sound_wrappedQueue, THEN conjunct2])
     (simp_all add: within_reportable settled_wellReported wellReported_aborted assms)


subsection \<open>The deletes of a changeset\<close>

lemma handle_asTask:
  "handle E op r (asBegun (asTask m)) s =
     (Launched (Pushed (fst (stop E r (now E (trace s)) (m s)))), snd (m s))"
  by (cases "m s") (simp add: handle_def asBegun_def asTask_def caught_def)

lemma launch_pushes:
  assumes "\<And>x. maintains I W (m x)" and "I s"
  shows "\<exists>ds s'. launch (\<lambda>x. handle E op x (asBegun (asTask (m x)))) xs b s =
             (b\<lparr>deployResults := deployResults b @ ds\<rparr>, s')
           \<and> map endpoint ds = xs \<and> list_all (within W) ds \<and> I s'"
  using assms(2)
proof (induction xs arbitrary: b s)
  case Nil
  then show ?case by simp
next
  case (Cons x xs)
  let ?res = "fst (stop E x (now E (trace s)) (m x s))"
  let ?b = "b\<lparr>deployResults := deployResults b @ [?res]\<rparr>"
  obtain out s1 where eq: "m x s = (out, s1)" by (cases "m x s")
  from yieldsD [OF assms(1) [of x, unfolded maintains_yields] Cons.prems eq]
  have s1: "I s1" and out: "case out of Inl e \<Rightarrow> W e | Inr v \<Rightarrow> True"
    by simp_all
  from out eq have res: "within W ?res" "endpoint ?res = x"
    by (simp_all add: within_stop)
  from Cons.IH [OF s1, of ?b] obtain ds s' where
    ds: "launch (\<lambda>x. handle E op x (asBegun (asTask (m x)))) xs ?b s1 =
           (?b\<lparr>deployResults := deployResults ?b @ ds\<rparr>, s')"
      "map endpoint ds = xs" "list_all (within W) ds" "I s'"
    by blast
  show ?case
  proof (intro exI [where x = "?res # ds"] exI [where x = s'] conjI)
    show "launch (\<lambda>x. handle E op x (asBegun (asTask (m x)))) (x # xs) b s =
        (b\<lparr>deployResults := deployResults b @ ?res # ds\<rparr>, s')"
      using ds(1) eq by (simp add: handle_asTask noted_def)
    show "map endpoint (?res # ds) = x # xs" using res(2) ds(2) by simp
    show "list_all (within W) (?res # ds)" using res(1) ds(3) by simp
    show "I s'" by (rule ds(4))
  qed
qed

lemma allSettled_pushed:
  "allSettled \<lparr>deployResults = rs, ready = [], waiting = [], delayed = []\<rparr> s = (Some rs, s)"
  by (simp add: allSettled_def)

lemma deletes_settle:
  assumes "\<And>r. maintains I W (deleteEndpoint E F r)" and "I s"
  shows "\<exists>ds s'. launch (\<lambda>r. handle E ''delete'' r (asBegun (asTask (deleteEndpoint E F r))))
               (endpointsToDelete changes)
               \<lparr>deployResults = rs, ready = [], waiting = [], delayed = []\<rparr> s =
             (\<lparr>deployResults = rs @ ds, ready = [], waiting = [], delayed = []\<rparr>, s')
           \<and> deletes E F changes rs s = (Some (rs @ ds), s')
           \<and> map endpoint ds = endpointsToDelete changes \<and> list_all (within W) ds
           \<and> I s'"
proof -
  let ?b = "\<lparr>deployResults = rs, ready = [], waiting = [], delayed = []\<rparr>"
  from launch_pushes [where m = "deleteEndpoint E F" and E = E and op = "''delete''"
      and xs = "endpointsToDelete changes" and b = ?b and I = I and W = W, OF assms]
  obtain ds s' where
    ds: "launch (\<lambda>r. handle E ''delete'' r (asBegun (asTask (deleteEndpoint E F r))))
           (endpointsToDelete changes) ?b s = (?b\<lparr>deployResults := deployResults ?b @ ds\<rparr>, s')"
      "map endpoint ds = endpointsToDelete changes" "list_all (within W) ds" "I s'"
    by blast
  show ?thesis
  proof (intro exI [where x = ds] exI [where x = s'] conjI)
    show l: "launch (\<lambda>r. handle E ''delete'' r (asBegun (asTask (deleteEndpoint E F r))))
               (endpointsToDelete changes) ?b s =
             (\<lparr>deployResults = rs @ ds, ready = [], waiting = [], delayed = []\<rparr>, s')"
      using ds(1) by simp
    show "deletes E F changes rs s = (Some (rs @ ds), s')"
      by (simp add: deletes_def l allSettled_pushed)
  qed (rule ds(2) ds(3) ds(4))+
qed

subsection \<open>The source token\<close>

lemma scrapedFrom_append:
  "scrapedFrom (xs @ ys) = (case scrapedFrom xs of Some v \<Rightarrow> Some v | None \<Rightarrow> scrapedFrom ys)"
  by (induction xs rule: scrapedFrom.induct) simp_all

lemma tokensFollow_append:
  "tokensFollow pre (xs @ ys) = (tokensFollow pre xs \<and> tokensFollow (pre @ xs) ys)"
  by (induction xs arbitrary: pre) simp_all

lemma tokensFollow_at:
  assumes "tokensFollow [] (pre @ ev # post)" and "submitted ev = Some tok"
  shows "if list_ex (\<lambda>e. submitted e \<noteq> None) pre then scrapedFrom pre = Some tok
         else tok = None"
  using assms by (simp add: tokensFollow_append)

lemma since_record_event:
  assumes "take (length base) (trace s) = base"
  shows "since base (record_event ev s) = since base s @ [ev]"
    and "take (length base) (trace (record_event ev s)) = base"
proof -
  have len: "length base \<le> length (trace s)"
    using arg_cong [OF assms, of length] by simp
  with assms show "since base (record_event ev s) = since base s @ [ev]"
    and "take (length base) (trace (record_event ev s)) = base"
    by (simp_all add: since_def record_event_def)
qed

lemma since_frame [simp]:
  "since base (s\<lparr>heap := h\<rparr>) = since base s"
  "since base (s\<lparr>scraper := sc\<rparr>) = since base s"
  "since base (s\<lparr>triggerQueue := q\<rparr>) = since base s"
  by (simp_all add: since_def)

lemma scraped_frame [simp]:
  "scraped base (s\<lparr>heap := h\<rparr>) = scraped base s"
  "scraped base (s\<lparr>triggerQueue := q\<rparr>) = scraped base s"
  by (simp_all add: scraped_def)

lemma begunV1_frame [simp]:
  "begunV1 base (s\<lparr>heap := h\<rparr>) = begunV1 base s"
  "begunV1 base (s\<lparr>scraper := sc\<rparr>) = begunV1 base s"
  "begunV1 base (s\<lparr>triggerQueue := q\<rparr>) = begunV1 base s"
  by (simp_all add: begunV1_def)

lemma submitted_neutral: "neutral c \<Longrightarrow> submitted (Issued c) = None"
  by (cases c) simp_all

lemma scraped_record_quiet:
  assumes "scraped base s" and "submitted (Issued c) = None"
  shows "scraped base (record_event (Issued c) s)"
    and "begunV1 base (record_event (Issued c) s) = begunV1 base s"
    and "scraper (record_event (Issued c) s) = scraper s"
proof -
  from assms(1) have t: "take (length base) (trace s) = base"
    and f: "tokensFollow [] (since base s)"
    and r: "token (scraper s) = scrapedFrom (since base s)"
    by (simp_all add: scraped_def)
  note e = since_record_event [OF t, of "Issued c"]
  have sc: "scraper (record_event (Issued c) s) = scraper s" by (simp add: record_event_def)
  from f r assms(2) show "scraped base (record_event (Issued c) s)"
    by (simp add: scraped_def e sc tokensFollow_append scrapedFrom_append
        split: option.splits)
  from assms(2) show "begunV1 base (record_event (Issued c) s) = begunV1 base s"
    by (simp add: begunV1_def e)
  show "scraper (record_event (Issued c) s) = scraper s" by (rule sc)
qed

lemma scraped_record_v1:
  assumes "scraped base s" and "submitted (Issued c) = Some tok"
    and "if begunV1 base s then token (scraper s) = Some tok else tok = None"
  shows "scraped base (record_event (Issued c) s)"
    and "begunV1 base (record_event (Issued c) s)"
proof -
  from assms(1) have t: "take (length base) (trace s) = base"
    and f: "tokensFollow [] (since base s)"
    and r: "token (scraper s) = scrapedFrom (since base s)"
    by (simp_all add: scraped_def)
  note e = since_record_event [OF t, of "Issued c"]
  have sc: "scraper (record_event (Issued c) s) = scraper s" by (simp add: record_event_def)
  from f r assms(2,3) show "scraped base (record_event (Issued c) s)"
    by (auto simp: scraped_def e sc tokensFollow_append scrapedFrom_append begunV1_def
        split: option.splits)
  from assms(2) show "begunV1 base (record_event (Issued c) s)"
    by (simp add: begunV1_def e)
qed

lemma scraped_feed:
  assumes "scraped base s"
  shows "scraped base (feed t s)"
    and "begunV1 base (feed t s) = begunV1 base s"
    and "token (scraper s) = Some v \<Longrightarrow> token (scraper (feed t s)) = Some v"
proof -
  from assms have t: "take (length base) (trace s) = base"
    and f: "tokensFollow [] (since base s)"
    and r: "token (scraper s) = scrapedFrom (since base s)"
    by (simp_all add: scraped_def)
  note e = since_record_event [OF t, of "Polled t"]
  from f r e show "scraped base (feed t s)"
    by (simp add: scraped_def feed_def poller_def tokensFollow_append scrapedFrom_append
        split: option.splits)
  from e show "begunV1 base (feed t s) = begunV1 base s"
    by (simp add: begunV1_def feed_def)
  show "token (scraper s) = Some v \<Longrightarrow> token (scraper (feed t s)) = Some v"
    by (simp add: feed_def poller_def record_event_def)
qed

lemma quiet_fresh: "quiet (fresh base sc)"
  unfolding quiet_def fresh_def
  by (auto simp: scraped_record_quiet submitted_neutral)

lemma quiet_followed: "quiet (followed base h)"
  unfolding quiet_def followed_def
  by (auto simp: scraped_record_quiet submitted_neutral)

lemma quiet_scraped: "quiet (scraped base)"
  unfolding quiet_def
  by (auto simp: scraped_record_quiet submitted_neutral)

lemma builds_token: "builds (\<lambda>e. True) E (admits base h) (followed base h)"
proof (rule builds_intro)
  fix s c assume "neutral c" and "followed base h s"
  with quiet_followed [of base h] show "followed base h (record_event (Issued c) s)"
    by (simp add: quiet_def)
next
  fix s hp assume "followed base h s"
  then show "followed base h (s\<lparr>heap := hp\<rparr>)" by (simp add: followed_def)
next
  fix s t assume "followed base h s"
  then show "followed base h (feed t s)"
    by (auto simp: followed_def scraped_feed)
next
  fix s f tok assume a: "admits base h tok s"
  let ?c = "GcfCreateFunction ((requireHttps f)\<lparr>sourceToken := tok\<rparr>)"
  from a have s: "scraped base s" and h: "token (scraper s) = h"
    and c: "if begunV1 base s then token (scraper s) = Some tok else tok = None"
    by (auto simp: admits_def split: if_splits)
  have "submitted (Issued ?c) = Some tok" by simp
  from scraped_record_v1 [OF s this c] h
  show "followed base h (record_event (Issued ?c) s)"
    by (simp add: followed_def record_event_def)
next
  fix s f tok assume a: "admits base h tok s"
  let ?c = "GcfUpdateFunction (f\<lparr>sourceToken := tok\<rparr>)"
  from a have s: "scraped base s" and h: "token (scraper s) = h"
    and c: "if begunV1 base s then token (scraper s) = Some tok else tok = None"
    by (auto simp: admits_def split: if_splits)
  have "submitted (Issued ?c) = Some tok" by simp
  from scraped_record_v1 [OF s this c] h
  show "followed base h (record_event (Issued ?c) s)"
    by (simp add: followed_def record_event_def)
qed simp

lemma firstCall_False: "\<not> firstCall sc \<Longrightarrow> sc\<lparr>firstCall := False\<rparr> = sc"
  by (cases sc) simp

lemma asked_tokenPromise:
  assumes "fresh base sc s"
  shows "asked base sc (fst (tokenPromise s)) (snd (tokenPromise s))"
  using assms
  by (auto simp: fresh_def asked_def tokenPromise_def scraped_def firstCall_False)

lemma sound_token:
  "sound (\<lambda>e. True) E F (fresh base) (asked base) (admits base) (followed base)"
  by (simp add: sound_def kept_quiet quiet_fresh quiet_followed builds_token
      asked_tokenPromise)

subsection \<open>The token in a batch of upserts\<close>

lemma noted_goodT:
  assumes h: "goodH (fresh base) (asked base) (admits base) (followed base)
               (within (\<lambda>e. True)) (scraper s) h s'"
    and b: "goodT base b s"
  shows "goodT base (noted h b) s'"
proof (cases h)
  case (Pushed res)
  with h have f: "fresh base (scraper s) s'" by (simp add: goodH_def)
  then have e: "scraper s' = scraper s" by (simp add: fresh_def)
  with f have "fresh base (scraper s') s'" by simp
  with b Pushed e show ?thesis by (simp add: goodT_def noted_def)
next
  case (Parked p k)
  with h have a: "asked base (scraper s) p s'"
    and k: "goodK (admits base) (followed base) (within (\<lambda>e. True)) k"
    by (simp_all add: goodH_def)
  from a have "scraped base s'" and "\<not> begunV1 base s'" and "token (scraper s') = None"
    and e: "scraper s' = (scraper s)\<lparr>firstCall := False\<rparr>"
    and p: "p = (if firstCall (scraper s) then Resolved None else Shared)"
    unfolding asked_def by blast+
  then have f: "fresh base (scraper s') s'" by (simp add: fresh_def)
  from arg_cong [OF e, of firstCall] have nf: "\<not> firstCall (scraper s')" by simp
  show ?thesis
  proof (cases "firstCall (scraper s)")
    case True
    with b have "ready b = []" by (simp add: goodT_def)
    with b f nf p True Parked k show ?thesis by (simp add: goodT_def noted_def)
  next
    case False
    with b f nf p Parked k show ?thesis by (simp add: goodT_def noted_def)
  qed
qed

lemma launch_goodT:
  assumes step: "\<And>x s g. fresh base g s \<Longrightarrow>
      goodL (fresh base) (asked base) (admits base) (followed base) (within (\<lambda>e. True)) g
        (fst (lnch x s)) (snd (lnch x s))"
    and "goodT base b s"
  shows "goodT base (fst (launch lnch xs b s)) (snd (launch lnch xs b s))"
  using assms(2)
proof (induction xs arbitrary: b s)
  case Nil
  then show ?case by simp
next
  case (Cons x xs)
  obtain l s' where eq: "lnch x s = (l, s')" by (cases "lnch x s")
  from Cons.prems have "fresh base (scraper s) s" by (simp add: goodT_def)
  from step [OF this, of x] eq
  have l: "goodL (fresh base) (asked base) (admits base) (followed base)
      (within (\<lambda>e. True)) (scraper s) l s'"
    by simp
  show ?case
  proof (cases l)
    case (Launched h)
    with l have "goodH (fresh base) (asked base) (admits base) (followed base)
        (within (\<lambda>e. True)) (scraper s) h s'"
      by (simp add: goodL_def)
    from Cons.IH [OF noted_goodT [OF this Cons.prems]] eq Launched show ?thesis by simp
  next
    case (Delayed m)
    with l have f: "fresh base (scraper s) s'"
      and m: "goodD (fresh base) (asked base) (admits base) (followed base)
          (within (\<lambda>e. True)) m"
      by (simp_all add: goodL_def)
    from f have e: "scraper s' = scraper s" by (simp add: fresh_def)
    with f have "fresh base (scraper s') s'" by simp
    with Cons.prems m e have "goodT base (b\<lparr>delayed := delayed b @ [m]\<rparr>) s'"
      by (simp add: goodT_def)
    from Cons.IH [OF this] eq Delayed show ?thesis by simp
  qed
qed

lemma afterDeletes_goodT:
  assumes "list_all (goodD (fresh base) (asked base) (admits base) (followed base)
      (within (\<lambda>e. True))) ms"
    and "goodT base b s"
  shows "goodT base (fst (afterDeletes ms b s)) (snd (afterDeletes ms b s))"
  using assms
proof (induction ms arbitrary: b s)
  case Nil
  then show ?case by simp
next
  case (Cons m ms)
  obtain h s' where eq: "m s = (h, s')" by (cases "m s")
  from Cons.prems(2) have "fresh base (scraper s) s" by (simp add: goodT_def)
  with Cons.prems(1) eq
  have "goodH (fresh base) (asked base) (admits base) (followed base)
      (within (\<lambda>e. True)) (scraper s) h s'"
    by (auto simp: goodD_def dest!: spec [where x = s] spec [where x = "scraper s"])
  from Cons.IH [OF _ noted_goodT [OF this Cons.prems(2)]] Cons.prems(1) eq
  show ?case by simp
qed

lemma resume_token:
  assumes "list_all (goodK (admits base) (followed base) (within (\<lambda>e. True))) ks"
    and "admits base (Some tok) tok s"
  shows "scraped base (snd (resume (map (Pair tok) ks) rs s))"
  using assms
proof (induction ks arbitrary: rs s)
  case Nil
  then show ?case by (simp add: admits_def)
next
  case (Cons k ks)
  obtain res s' where eq: "k tok s = (res, s')" by (cases "k tok s")
  from Cons.prems eq have "followed base (Some tok) s'"
    by (auto simp: goodK_def dest!: spec [where x = s] spec [where x = tok]
        spec [where x = "Some tok"])
  then have "admits base (Some tok) tok s'" by (simp add: followed_def admits_def)
  from Cons.IH [OF _ this] Cons.prems(1) eq show ?case by simp
qed

lemma allSettled_scraped:
  assumes "goodT base b s"
  shows "scraped base (snd (allSettled b s))"
proof -
  obtain b1 s1 where d: "afterDeletes (delayed b) b s = (b1, s1)"
    by (cases "afterDeletes (delayed b) b s")
  from assms have "list_all (goodD (fresh base) (asked base) (admits base) (followed base)
      (within (\<lambda>e. True))) (delayed b)"
    by (simp add: goodT_def)
  from afterDeletes_goodT [OF this assms] d have g1: "goodT base b1 s1" by simp
  then have f1: "fresh base (scraper s1) s1" and len: "length (ready b1) \<le> 1"
    and rd: "list_all (\<lambda>tk. fst tk = None
        \<and> goodK (admits base) (followed base) (within (\<lambda>e. True)) (snd tk)) (ready b1)"
    and w: "list_all (goodK (admits base) (followed base) (within (\<lambda>e. True))) (waiting b1)"
    by (simp_all add: goodT_def)
  obtain rs2 s2 where r: "resume (ready b1) (deployResults b1) s1 = (rs2, s2)"
    by (cases "resume (ready b1) (deployResults b1) s1")
  have s2: "(ready b1 = [] \<and> fresh base (scraper s1) s2) \<or> followed base None s2"
  proof (cases "ready b1")
    case Nil
    with r f1 show ?thesis by simp
  next
    case (Cons tk tks)
    with len have tks: "tks = []" by simp
    from rd Cons have tk: "fst tk = None"
      and k: "goodK (admits base) (followed base) (within (\<lambda>e. True)) (snd tk)"
      by simp_all
    from f1 have "admits base None None s1" by (simp add: fresh_def admits_def)
    with k have "followed base None (snd (snd tk None s1))"
      by (auto simp: goodK_def dest!: spec [where x = s1])
    with r Cons tks tk show ?thesis by (simp split: prod.splits)
  qed
  then have sc2: "scraped base s2" by (auto simp: fresh_def followed_def)
  show ?thesis
  proof (cases "waiting b1")
    case Nil
    with d r sc2 show ?thesis by (simp add: allSettled_def)
  next
    case (Cons k ks)
    show ?thesis
    proof (cases "token (scraper s2)")
      case None
      with d r Cons sc2 show ?thesis by (simp add: allSettled_def)
    next
      case (Some tok)
      with s2 have "followed base None s2" by (auto simp: fresh_def)
      with Some have "admits base (Some tok) tok s2" by (simp add: followed_def admits_def)
      obtain rs3 s3 where r3: "resume (map (Pair tok) (waiting b1)) rs2 s2 = (rs3, s3)"
        by (cases "resume (map (Pair tok) (waiting b1)) rs2 s2")
      from resume_token [OF w \<open>admits base (Some tok) tok s2\<close>, of rs2] r3
      have "scraped base s3" by simp
      with d r Cons Some r3 show ?thesis by (simp add: allSettled_def)
    qed
  qed
qed

lemma upserts_scraped:
  assumes "fresh base newScraper s"
  shows "scraped base (snd (upserts E F changes s))"
proof -
  let ?create = "\<lambda>r. handle E ''create'' r (asBegun (createEndpoint E F r))"
  let ?update = "\<lambda>u. handle E ''update'' (u_endpoint u) (updateEndpoint E F u)"
  let ?b0 = "\<lparr>deployResults = [], ready = [], waiting = [], delayed = []\<rparr>"
  from assms have "scraper s = newScraper" by (simp add: fresh_def)
  with assms have "goodT base ?b0 s" by (simp add: goodT_def)
  obtain b s' where c: "launch ?create (endpointsToCreate changes) ?b0 s = (b, s')"
    by (cases "launch ?create (endpointsToCreate changes) ?b0 s")
  from launch_goodT [where lnch = ?create and xs = "endpointsToCreate changes",
      OF handle_launched [OF parks_createEndpoint [OF sound_token]] \<open>goodT base ?b0 s\<close>] c
  have b: "goodT base b s'" by simp
  obtain b' s'' where u: "launch ?update (endpointsToUpdate changes) b s' = (b', s'')"
    by (cases "launch ?update (endpointsToUpdate changes) b s'")
  from launch_goodT [where lnch = ?update and xs = "endpointsToUpdate changes",
      OF handle_updateEndpoint [OF sound_token] b] u
  have "goodT base b' s''" by simp
  from allSettled_scraped [OF this] c u show ?thesis by (simp add: upserts_def)
qed

lemma fresh_start: "fresh (trace s) newScraper (s\<lparr>scraper := newScraper\<rparr>)"
  by (simp add: fresh_def scraped_def begunV1_def since_def newScraper_def)

lemma applyChangeset_scraped: "scraped (trace s) (snd (applyChangeset E F changes s))"
proof -
  obtain out s1 where up: "upserts E F changes (s\<lparr>scraper := newScraper\<rparr>) = (out, s1)"
    by (cases "upserts E F changes (s\<lparr>scraper := newScraper\<rparr>)")
  from upserts_scraped [OF fresh_start, of s E F changes] up
  have s1: "scraped (trace s) s1" by simp
  show ?thesis
  proof (cases out)
    case None
    with up s1 show ?thesis by (simp add: applyChangeset_def)
  next
    case (Some rs)
    from deletes_settle [where I = "scraped (trace s)" and W = "\<lambda>e. True" and rs = rs
        and changes = changes, OF qt_deleteEndpoint [OF quiet_scraped] s1]
    obtain ds s2 where "deletes E F changes rs s1 = (Some (rs @ ds), s2)"
      and "scraped (trace s) s2"
      by blast
    with up Some s1 show ?thesis by (simp add: applyChangeset_def)
  qed
qed

lemma applyChangeset_tokensFollow:
  "tokensFollow [] (issuedBy (applyChangeset E F changes) s)"
  using applyChangeset_scraped [of s E F changes]
  by (simp add: scraped_def issuedBy_def since_def)

section \<open>The claims\<close>

text \<open>
  C1 at a failing input. The plan has one changeset, which creates the v1 endpoints 1 and
  0, in this order, and deletes endpoint 2; the backend rejects the create call for
  endpoint 1. Endpoint 1 asks for the token first and does not wait; its create call, the
  only event, fails, so that there is no poll and nothing resolves the token. The create
  of endpoint 0 waits for it for ever, the upserts never settle and \<^verbatim>\<open>applyPlan\<close> never
  returns: the value \<^verbatim>\<open>None\<close>. With the two creates in the other order, the same plan in the
  same world is fulfilled with three results.
\<close>

theorem applyPlan_never_settles:
  "fst (applyPlan (ex_env fails_b) ex_fabricator [ex_changes_bad] (ex_state ex_heap_abd)) = None
   \<and> issuedBy (applyPlan (ex_env fails_b) ex_fabricator [ex_changes_bad])
        (ex_state ex_heap_abd) =
       [Issued (GcfCreateFunction \<lparr>cf_name = ''b'', httpsTrigger = None, sourceToken = None\<rparr>)]
   \<and> fst (applyPlan (ex_env fails_b) ex_fabricator [ex_changes_abd] (ex_state ex_heap_abd)) =
       Some (Inr \<lparr>totalTime = 5,
                  results =
                    [\<lparr>endpoint = 0, durationMs = 4, error = None\<rparr>,
                     \<lparr>endpoint = 1, durationMs = 5,
                      error = Some (DeploymentError 1 ''create''
                                      (ApiError (Some 503) ''unavailable''))\<rparr>,
                     \<lparr>endpoint = 2, durationMs = 0,
                      error = Some (AbortedDeploymentError 2)\<rparr>]\<rparr>)"
  by (simp add: issuedBy_def promise_defs fabricator_defs example_defs)



text \<open>
  C3 at a failing input. On a fresh Fabricator the registration for endpoint 0 is
  submitted first and its backend call fails: the trigger queue is now rejected with that
  \<^verbatim>\<open>DeploymentError\<close>. The registration for endpoint 1, submitted next, is rejected with the
  error of endpoint 0 and leaves the state as it was: its own backend call is never
  issued, although the backend would have accepted it, and although the same registration
  on a fresh queue is fulfilled.
\<close>

theorem rejected_queue_skips_later_registration:
  "registerBlockingTrigger (ex_env fails_x) 0 False (ex_state ex_heap_blocking) =
     (Inl (DeploymentError 0 ''register blocking trigger'' (ApiError (Some 503) ''unavailable'')),
      (ex_state ex_heap_blocking)
        \<lparr>trace := [Issued (RegisterTrigger (ex_heap_blocking 0) False)],
         triggerQueue := Some (DeploymentError 0 ''register blocking trigger''
                                 (ApiError (Some 503) ''unavailable''))\<rparr>)
   \<and> respond (ex_env fails_x) [Issued (RegisterTrigger (ex_heap_blocking 0) False)]
        (RegisterTrigger (ex_heap_blocking 1) False) = None
   \<and> registerBlockingTrigger (ex_env fails_x) 1 False
        (snd (registerBlockingTrigger (ex_env fails_x) 0 False (ex_state ex_heap_blocking))) =
     (Inl (DeploymentError 0 ''register blocking trigger'' (ApiError (Some 503) ''unavailable'')),
      snd (registerBlockingTrigger (ex_env fails_x) 0 False (ex_state ex_heap_blocking)))
   \<and> fst (registerBlockingTrigger (ex_env fails_x) 1 False (ex_state ex_heap_blocking)) = Inr ()"
  by (simp add: promise_defs fabricator_defs example_defs)

text \<open>
  C4 at a failing input. Changeset \<open>x\<close> creates endpoint 0 and changeset \<open>y\<close> creates
  endpoint 1, both with a blocking trigger. When the registration for endpoint 0 fails,
  the result of endpoint 1 carries the error of endpoint 0. When that registration
  succeeds, the result of endpoint 1 carries no error; nor does it when changeset \<open>y\<close> is
  applied alone in the world in which the registration for endpoint 0 fails.
\<close>

theorem failed_changeset_fails_the_next:
  "fst (applyPlan (ex_env fails_x) ex_fabricator [ex_changes_x, ex_changes_y]
          (ex_state ex_heap_blocking)) =
     Some (Inr \<lparr>totalTime = 9,
          results =
            [\<lparr>endpoint = 0, durationMs = 5,
              error = Some (DeploymentError 0 ''register blocking trigger''
                              (ApiError (Some 503) ''unavailable''))\<rparr>,
             \<lparr>endpoint = 1, durationMs = 4,
              error = Some (DeploymentError 0 ''register blocking trigger''
                              (ApiError (Some 503) ''unavailable''))\<rparr>]\<rparr>)
   \<and> fst (applyPlan (ex_env fails_none) ex_fabricator [ex_changes_x, ex_changes_y]
            (ex_state ex_heap_blocking)) =
     Some (Inr \<lparr>totalTime = 10,
          results = [\<lparr>endpoint = 0, durationMs = 5, error = None\<rparr>,
                     \<lparr>endpoint = 1, durationMs = 5, error = None\<rparr>]\<rparr>)
   \<and> fst (applyPlan (ex_env fails_x) ex_fabricator [ex_changes_y]
            (ex_state ex_heap_blocking)) =
     Some (Inr \<lparr>totalTime = 5, results = [\<lparr>endpoint = 1, durationMs = 5, error = None\<rparr>]\<rparr>)"
  by (simp add: promise_defs fabricator_defs example_defs)

text \<open>
  C5, as stated, fails. A Fabricator constructed without \<^verbatim>\<open>sourceUrl\<close> that applies a plan
  creating one v1 endpoint is fulfilled with a summary: the precondition failure is not
  raised to the caller. \<^verbatim>\<open>handle\<close> catches it and the endpoint's result holds the plain
  \<^verbatim>\<open>Error("Precondition failed")\<close>, which is neither a \<^verbatim>\<open>DeploymentError\<close> nor an
  \<^verbatim>\<open>AbortedDeploymentError\<close>.
\<close>

theorem precondition_error_reaches_result:
  "fst (applyPlan (ex_env fails_none) ex_fabricator_bare [ex_changes_a] (ex_state ex_heap_abd)) =
     Some (Inr \<lparr>totalTime = 0,
          results = [\<lparr>endpoint = 0, durationMs = 0,
                      error = Some (PlainError ''Precondition failed'')\<rparr>]\<rparr>)
   \<and> \<not> isDeploymentError (PlainError ''Precondition failed'')
   \<and> \<not> isAborted (PlainError ''Precondition failed'')"
  by (simp add: promise_defs fabricator_defs example_defs)

text \<open>
  C5, amended. From a state whose trigger queue is fulfilled or rejected with a
  \<^verbatim>\<open>DeploymentError\<close>, \<^verbatim>\<open>applyPlan\<close> is never rejected, and when it settles every error in a
  result of its summary is a \<^verbatim>\<open>DeploymentError\<close>, an \<^verbatim>\<open>AbortedDeploymentError\<close> or the plain
  \<^verbatim>\<open>Error("Precondition failed")\<close>; errors of the collaborators never reach a result
  unwrapped. A missing source locator (no or empty \<^verbatim>\<open>sourceUrl\<close> for v1, no \<^verbatim>\<open>storage\<close> for
  v2) makes the platform's create and update reject at once with that plain error, before
  any call, before the token is asked for and with the state unchanged; the error is not
  wrapped in a \<^verbatim>\<open>DeploymentError\<close>, and \<^verbatim>\<open>handle\<close> records it in the endpoint's result.
\<close>

theorem results_hold_wrapped_or_precondition_errors:
  "(wrappedQueue s \<longrightarrow>
      (case fst (applyPlan E F plan s) of
         None \<Rightarrow> True
       | Some res \<Rightarrow> \<exists>sm. res = Inr sm \<and> list_all wellReported (results sm)))
   \<and> (sourceUrl F = None \<or> sourceUrl F = Some [] \<longrightarrow>
        createV1Function E F r s = (Settled (Inl (PlainError ''Precondition failed'')), s)
        \<and> updateV1Function E F r s = (Settled (Inl (PlainError ''Precondition failed'')), s))
   \<and> (storage F = None \<longrightarrow>
        createV2Function E F r s = (Inl (PlainError ''Precondition failed''), s)
        \<and> updateV2Function E F r s = (Inl (PlainError ''Precondition failed''), s))
   \<and> (platform (heap s r) = Gcfv1 \<and> (sourceUrl F = None \<or> sourceUrl F = Some []) \<longrightarrow>
        fst (handle E ''create'' r (asBegun (createEndpoint E F r)) s) =
          Launched (Pushed \<lparr>endpoint = r, durationMs = 0,
                            error = Some (PlainError ''Precondition failed'')\<rparr>))"
proof (intro conjI impI)
  assume "wrappedQueue s"
  then show "case fst (applyPlan E F plan s) of
         None \<Rightarrow> True
       | Some res \<Rightarrow> \<exists>sm. res = Inr sm \<and> list_all wellReported (results sm)"
    by (rule applyPlan_wellReported)
next
  assume "sourceUrl F = None \<or> sourceUrl F = Some []"
  then show "createV1Function E F r s = (Settled (Inl (PlainError ''Precondition failed'')), s)"
    and "updateV1Function E F r s = (Settled (Inl (PlainError ''Precondition failed'')), s)"
    by (rule v1_precondition)+
next
  assume "storage F = None"
  then show "createV2Function E F r s = (Inl (PlainError ''Precondition failed''), s)"
    and "updateV2Function E F r s = (Inl (PlainError ''Precondition failed''), s)"
    by (rule v2_precondition)+
next
  assume a: "platform (heap s r) = Gcfv1 \<and> (sourceUrl F = None \<or> sourceUrl F = Some [])"
  define s1 where "s1 = snd (mergeToolLabels E r s)"
  have m: "mergeToolLabels E r s = (Inr (), s1)" and t: "trace s1 = trace s"
    and p: "platform (heap s1 r) = Gcfv1"
    using a unfolding s1_def
    by (simp_all add: mergeToolLabels_def await_def getEndpoint_def setLabels_def)
  from a have "createV1Function E F r s1 = (Settled (Inl (PlainError ''Precondition failed'')), s1)"
    by (intro v1_precondition) simp
  with m p have "createEndpoint E F r s = (Settled (Inl (PlainError ''Precondition failed'')), s1)"
    by (simp add: createEndpoint_def await_then_def await_task_def getEndpoint_def)
  with t show "fst (handle E ''create'' r (asBegun (createEndpoint E F r)) s) =
      Launched (Pushed \<lparr>endpoint = r, durationMs = 0,
                        error = Some (PlainError ''Precondition failed'')\<rparr>)"
    by (simp add: handle_def asBegun_def caught_def stop_def)
qed

theorem results_hold_wrapped_or_precondition_errors_witness:
  "wrappedQueue (ex_state ex_heap_abd)
   \<and> sourceUrl ex_fabricator_bare = None \<and> storage ex_fabricator_bare = None
   \<and> platform (heap (ex_state ex_heap_abd) 0) = Gcfv1
   \<and> (\<exists>sm. fst (applyPlan (ex_env fails_b) ex_fabricator [ex_changes_abd] (ex_state ex_heap_abd))
             = Some (Inr sm) \<and> list_all wellReported (results sm))
   \<and> createV1Function (ex_env fails_none) ex_fabricator_bare 0 (ex_state ex_heap_abd) =
        (Settled (Inl (PlainError ''Precondition failed'')), ex_state ex_heap_abd)
   \<and> createV2Function (ex_env fails_none) ex_fabricator_bare 2 (ex_state ex_heap_abd) =
        (Inl (PlainError ''Precondition failed''), ex_state ex_heap_abd)
   \<and> fst (handle (ex_env fails_none) ''create'' 0
             (asBegun (createEndpoint (ex_env fails_none) ex_fabricator_bare 0))
             (ex_state ex_heap_abd)) =
        Launched (Pushed \<lparr>endpoint = 0, durationMs = 0,
                          error = Some (PlainError ''Precondition failed'')\<rparr>)"
proof -
  have wq: "wrappedQueue (ex_state ex_heap_abd)" by (simp add: wrappedQueue_def ex_state_def)
  have src: "sourceUrl ex_fabricator_bare = None" and sto: "storage ex_fabricator_bare = None"
    by (simp_all add: ex_fabricator_bare_def)
  have pf: "platform (heap (ex_state ex_heap_abd) 0) = Gcfv1"
    by (simp add: example_defs)
  have ev: "fst (applyPlan (ex_env fails_b) ex_fabricator [ex_changes_abd]
                   (ex_state ex_heap_abd)) \<noteq> None"
    by (simp add: promise_defs fabricator_defs example_defs)
  note main = results_hold_wrapped_or_precondition_errors
  from main [of "ex_state ex_heap_abd" "ex_env fails_b" ex_fabricator "[ex_changes_abd]"] wq ev
  have a: "\<exists>sm. fst (applyPlan (ex_env fails_b) ex_fabricator [ex_changes_abd]
                       (ex_state ex_heap_abd)) = Some (Inr sm)
              \<and> list_all wellReported (results sm)"
    by (auto split: option.splits)
  from main [of "ex_state ex_heap_abd" "ex_env fails_none" ex_fabricator_bare "[]" 0]
    src sto pf
  have b: "createV1Function (ex_env fails_none) ex_fabricator_bare 0 (ex_state ex_heap_abd) =
        (Settled (Inl (PlainError ''Precondition failed'')), ex_state ex_heap_abd)"
    and d: "fst (handle (ex_env fails_none) ''create'' 0
             (asBegun (createEndpoint (ex_env fails_none) ex_fabricator_bare 0))
             (ex_state ex_heap_abd)) =
        Launched (Pushed \<lparr>endpoint = 0, durationMs = 0,
                          error = Some (PlainError ''Precondition failed'')\<rparr>)"
    by simp_all
  from main [of "ex_state ex_heap_abd" "ex_env fails_none" ex_fabricator_bare "[]" 2] sto
  have c: "createV2Function (ex_env fails_none) ex_fabricator_bare 2 (ex_state ex_heap_abd) =
        (Inl (PlainError ''Precondition failed''), ex_state ex_heap_abd)"
    by blast
  from wq src sto pf a b c d show ?thesis by (intro conjI)
qed

text \<open>
  C6. A v1 create issues nothing before it has the scraper's token. Once the function is
  created (the submission, continued with the token, is fulfilled; for v2 the submission is
  fulfilled), the set-invoker calls that the create issues depend on the trigger as
  follows. HTTPS: the invoker is the given list, or \<^verbatim>\<open>["public"]\<close> when none is given, and
  one call sets it unless the list includes \<^verbatim>\<open>"private"\<close>. Callable, and blocking with an
  event type among \<^verbatim>\<open>AUTH_BLOCKING_EVENTS\<close>: one call sets \<^verbatim>\<open>["public"]\<close>. Task queue: no
  call when no invoker is given (there is no public default); with a given list, one call
  sets it unless it includes \<^verbatim>\<open>"private"\<close>. Other triggers: no call. The v1 create calls
  \<^verbatim>\<open>gcf.setInvokerCreate\<close> on the function name, the v2 create \<^verbatim>\<open>run.setInvokerCreate\<close> on the
  service the created function reports.
\<close>

theorem create_invoker_policy:
  "issuedBy (createV1Function E F r) s0 = []
   \<and> (fst (resumed (createV1Function_submit E F r) s0 tok s) = Inr () \<longrightarrow>
      filter isSetInvokerCreate (issuedBy (resumed (createV1Function E F r) s0 tok) s) =
        (let ep = heap (snd (resumed (createV1Function_submit E F r) s0 tok s)) r in
         case trigger ep of
           HttpsTriggered given \<Rightarrow>
             (let invoker = (case given of Some i \<Rightarrow> i | None \<Rightarrow> [''public'']) in
              if ''private'' \<in> set invoker then []
              else [Issued (GcfSetInvokerCreate (project ep) (functionName E ep) invoker)])
         | CallableTriggered \<Rightarrow>
             [Issued (GcfSetInvokerCreate (project ep) (functionName E ep) [''public''])]
         | TaskQueueTriggered given \<Rightarrow>
             (case given of
                None \<Rightarrow> []
              | Some invoker \<Rightarrow>
                  if ''private'' \<in> set invoker then []
                  else [Issued (GcfSetInvokerCreate (project ep) (functionName E ep) invoker)])
         | BlockingTriggered eventType \<Rightarrow>
             if eventType \<in> set (AUTH_BLOCKING_EVENTS E)
             then [Issued (GcfSetInvokerCreate (project ep) (functionName E ep) [''public''])]
             else []
         | ScheduleTriggered \<Rightarrow> []
         | EventTriggered \<Rightarrow> []))
   \<and> (fst (createV2Function_submit E F r s) = Inr n \<longrightarrow>
      filter isSetInvokerCreate (issuedBy (createV2Function E F r) s) =
        (let ep = heap (snd (createV2Function_submit E F r s)) r in
         case trigger ep of
           HttpsTriggered given \<Rightarrow>
             (let invoker = (case given of Some i \<Rightarrow> i | None \<Rightarrow> [''public'']) in
              if ''private'' \<in> set invoker then []
              else [Issued (RunSetInvokerCreate (project ep) n invoker)])
         | CallableTriggered \<Rightarrow> [Issued (RunSetInvokerCreate (project ep) n [''public''])]
         | TaskQueueTriggered given \<Rightarrow>
             (case given of
                None \<Rightarrow> []
              | Some invoker \<Rightarrow>
                  if ''private'' \<in> set invoker then []
                  else [Issued (RunSetInvokerCreate (project ep) n invoker)])
         | BlockingTriggered eventType \<Rightarrow>
             if eventType \<in> set (AUTH_BLOCKING_EVENTS E)
             then [Issued (RunSetInvokerCreate (project ep) n [''public''])]
             else []
         | ScheduleTriggered \<Rightarrow> []
         | EventTriggered \<Rightarrow> []))"
proof (intro conjI impI)
  show "issuedBy (createV1Function E F r) s0 = []" by (simp add: issuedBy_def)
next
  assume "fst (resumed (createV1Function_submit E F r) s0 tok s) = Inr ()"
  then show "filter isSetInvokerCreate (issuedBy (resumed (createV1Function E F r) s0 tok) s) =
        (let ep = heap (snd (resumed (createV1Function_submit E F r) s0 tok s)) r in
         case trigger ep of
           HttpsTriggered given \<Rightarrow>
             (let invoker = (case given of Some i \<Rightarrow> i | None \<Rightarrow> [''public'']) in
              if ''private'' \<in> set invoker then []
              else [Issued (GcfSetInvokerCreate (project ep) (functionName E ep) invoker)])
         | CallableTriggered \<Rightarrow>
             [Issued (GcfSetInvokerCreate (project ep) (functionName E ep) [''public''])]
         | TaskQueueTriggered given \<Rightarrow>
             (case given of
                None \<Rightarrow> []
              | Some invoker \<Rightarrow>
                  if ''private'' \<in> set invoker then []
                  else [Issued (GcfSetInvokerCreate (project ep) (functionName E ep) invoker)])
         | BlockingTriggered eventType \<Rightarrow>
             if eventType \<in> set (AUTH_BLOCKING_EVENTS E)
             then [Issued (GcfSetInvokerCreate (project ep) (functionName E ep) [''public''])]
             else []
         | ScheduleTriggered \<Rightarrow> []
         | EventTriggered \<Rightarrow> [])"
    by (simp add: issuedBy_createV1Function no_invoker_events issuedBy_createV1Function_invoker
        Let_def split: triggered.splits option.splits)
next
  assume sub: "fst (createV2Function_submit E F r s) = Inr n"
  show "filter isSetInvokerCreate (issuedBy (createV2Function E F r) s) =
        (let ep = heap (snd (createV2Function_submit E F r s)) r in
         case trigger ep of
           HttpsTriggered given \<Rightarrow>
             (let invoker = (case given of Some i \<Rightarrow> i | None \<Rightarrow> [''public'']) in
              if ''private'' \<in> set invoker then []
              else [Issued (RunSetInvokerCreate (project ep) n invoker)])
         | CallableTriggered \<Rightarrow> [Issued (RunSetInvokerCreate (project ep) n [''public''])]
         | TaskQueueTriggered given \<Rightarrow>
             (case given of
                None \<Rightarrow> []
              | Some invoker \<Rightarrow>
                  if ''private'' \<in> set invoker then []
                  else [Issued (RunSetInvokerCreate (project ep) n invoker)])
         | BlockingTriggered eventType \<Rightarrow>
             if eventType \<in> set (AUTH_BLOCKING_EVENTS E)
             then [Issued (RunSetInvokerCreate (project ep) n [''public''])]
             else []
         | ScheduleTriggered \<Rightarrow> []
         | EventTriggered \<Rightarrow> [])"
    by (simp add: issuedBy_createV2Function [OF sub] no_invoker_events
        issuedBy_createV2Function_invoker Let_def split: triggered.splits option.splits sum.splits)
qed

theorem create_invoker_policy_witness:
  "fst (resumed (createV1Function_submit (ex_env fails_none) ex_fabricator 0)
          (ex_state ex_heap_invokers) None (ex_state ex_heap_invokers)) = Inr ()
   \<and> filter isSetInvokerCreate
        (issuedBy (resumed (createV1Function (ex_env fails_none) ex_fabricator 0)
                     (ex_state ex_heap_invokers) None)
           (ex_state ex_heap_invokers)) =
       [Issued (GcfSetInvokerCreate ''demo'' ''a'' [''public''])]
   \<and> fst (resumed (createV1Function_submit (ex_env fails_none) ex_fabricator 1)
            (ex_state ex_heap_invokers) None (ex_state ex_heap_invokers)) = Inr ()
   \<and> filter isSetInvokerCreate
        (issuedBy (resumed (createV1Function (ex_env fails_none) ex_fabricator 1)
                     (ex_state ex_heap_invokers) None)
           (ex_state ex_heap_invokers)) = []
   \<and> fst (createV2Function_submit (ex_env fails_none) ex_fabricator 2 (ex_state ex_heap_invokers))
     = Inr (Some ''service'')
   \<and> filter isSetInvokerCreate
        (issuedBy (createV2Function (ex_env fails_none) ex_fabricator 2)
           (ex_state ex_heap_invokers)) =
       [Issued (RunSetInvokerCreate ''demo'' (Some ''service'') [''public''])]
   \<and> fst (createV2Function_submit (ex_env fails_none) ex_fabricator 3 (ex_state ex_heap_invokers))
     = Inr (Some ''service'')
   \<and> filter isSetInvokerCreate
        (issuedBy (createV2Function (ex_env fails_none) ex_fabricator 3)
           (ex_state ex_heap_invokers)) = []"
proof -
  let ?E = "ex_env fails_none" and ?s = "ex_state ex_heap_invokers"
  have h0: "fst (resumed (createV1Function_submit ?E ex_fabricator 0) ?s None ?s) = Inr ()"
    and h1: "fst (resumed (createV1Function_submit ?E ex_fabricator 1) ?s None ?s) = Inr ()"
    and h2: "fst (createV2Function_submit ?E ex_fabricator 2 ?s) = Inr (Some ''service'')"
    and h3: "fst (createV2Function_submit ?E ex_fabricator 3 ?s) = Inr (Some ''service'')"
    by (simp_all add: resumed_def promise_defs fabricator_defs example_defs)
  have e0: "heap (snd (resumed (createV1Function_submit ?E ex_fabricator 0) ?s None ?s)) 0 =
      ex_endpoint ''a'' Gcfv1 (HttpsTriggered None)"
    and e1: "heap (snd (resumed (createV1Function_submit ?E ex_fabricator 1) ?s None ?s)) 1 =
      ex_endpoint ''q'' Gcfv1 (TaskQueueTriggered None)"
    and e2: "heap (snd (createV2Function_submit ?E ex_fabricator 2 ?s)) 2 =
      (ex_endpoint ''c'' Gcfv2 CallableTriggered)\<lparr>uri := Some ''https://service''\<rparr>"
    and e3: "heap (snd (createV2Function_submit ?E ex_fabricator 3 ?s)) 3 =
      (ex_endpoint ''p'' Gcfv2 (HttpsTriggered (Some [''private''])))
        \<lparr>uri := Some ''https://service''\<rparr>"
    by (simp_all add: resumed_def promise_defs fabricator_defs example_defs)
  note v1 = create_invoker_policy [THEN conjunct2, THEN conjunct1, rule_format]
    and v2 = create_invoker_policy [THEN conjunct2, THEN conjunct2, rule_format]
  have a0: "filter isSetInvokerCreate
       (issuedBy (resumed (createV1Function ?E ex_fabricator 0) ?s None) ?s) =
       [Issued (GcfSetInvokerCreate ''demo'' ''a'' [''public''])]"
    unfolding v1 [OF h0] e0 by (simp add: ex_endpoint_def ex_env_def)
  have a1: "filter isSetInvokerCreate
       (issuedBy (resumed (createV1Function ?E ex_fabricator 1) ?s None) ?s) = []"
    unfolding v1 [OF h1] e1 by (simp add: ex_endpoint_def ex_env_def)
  have a2: "filter isSetInvokerCreate (issuedBy (createV2Function ?E ex_fabricator 2) ?s) =
       [Issued (RunSetInvokerCreate ''demo'' (Some ''service'') [''public''])]"
    unfolding v2 [OF h2] e2 by (simp add: ex_endpoint_def ex_env_def)
  have a3: "filter isSetInvokerCreate (issuedBy (createV2Function ?E ex_fabricator 3) ?s) = []"
    unfolding v2 [OF h3] e3 by (simp add: ex_endpoint_def ex_env_def)
  from h0 a0 h1 a1 h2 a2 h3 a3 show ?thesis by (intro conjI)
qed

text \<open>
  C7, as stated, fails on the update path. Updating a v2 endpoint with 4096 MB (the minimum
  for concurrency is 2048 here) that asks for concurrency exactly 1 fetches the service and
  replaces it with container concurrency 1, although the claim says that nothing is set.
  Updating one with the same memory that asks for no concurrency issues nothing after the
  update and its poll, although the claim says that 80 is set.
\<close>

theorem update_sets_concurrency_one:
  "availableMemoryMb (heap (ex_state ex_heap_concurrency) 0) = Some 4096
   \<and> concurrency (heap (ex_state ex_heap_concurrency) 0) = Some 1
   \<and> MIN_MEMORY_FOR_CONCURRENCY (ex_env fails_none) = 2048
   \<and> drop 2 (issuedBy (updateV2Function (ex_env fails_none) ex_fabricator 0)
                (ex_state ex_heap_concurrency)) =
       [Issued (RunGetService (Some ''service'')),
        Issued (RunReplaceService (Some ''service'')
                  \<lparr>svc_status = None, templateName = None, containerConcurrency = Some 1\<rparr>)]
   \<and> availableMemoryMb (heap (ex_state ex_heap_concurrency) 2) = Some 4096
   \<and> concurrency (heap (ex_state ex_heap_concurrency) 2) = None
   \<and> drop 2 (issuedBy (updateV2Function (ex_env fails_none) ex_fabricator 2)
                (ex_state ex_heap_concurrency)) = []"
  by (simp add: issuedBy_def promise_defs fabricator_defs example_defs)

text \<open>
  C7, amended. For a v2 endpoint whose function was submitted and whose invoker was set:
  the create path runs \<^verbatim>\<open>setConcurrency\<close> if and only if the memory (the default when absent
  or 0) is at least \<^verbatim>\<open>MIN_MEMORY_FOR_CONCURRENCY\<close> and the requested concurrency is not 1,
  and the target is the requested value, or 80 when none (or 0) is requested. The update
  path runs \<^verbatim>\<open>setConcurrency\<close> if and only if a concurrency (other than 0) is requested,
  whatever the memory, and the target is the requested value, 1 included.
\<close>

theorem v2_concurrency_policy:
  "(fst (createV2Function_submit E F r s) = Inr n
      \<and> fst (createV2Function_invoker E r n (snd (createV2Function_submit E F r s))) = Inr ()
    \<longrightarrow>
      createV2Function E F r s =
        (let s2 = snd (createV2Function_invoker E r n (snd (createV2Function_submit E F r s)));
             ep = heap s2 r;
             mem = (case availableMemoryMb ep of
                      None \<Rightarrow> DEFAULT_MEMORY E
                    | Some m \<Rightarrow> if m = 0 then DEFAULT_MEMORY E else m)
         in if MIN_MEMORY_FOR_CONCURRENCY E \<le> mem \<and> concurrency ep \<noteq> Some 1
            then setConcurrency E r n
                   (case concurrency ep of None \<Rightarrow> 80 | Some c \<Rightarrow> if c = 0 then 80 else c) s2
            else (Inr (), s2)))
   \<and> (fst (updateV2Function_submit E F r s) = Inr n
      \<and> fst (updateV2Function_invoker E r n (snd (updateV2Function_submit E F r s))) = Inr ()
    \<longrightarrow>
      updateV2Function E F r s =
        (let s2 = snd (updateV2Function_invoker E r n (snd (updateV2Function_submit E F r s)));
             ep = heap s2 r
         in case concurrency ep of
              None \<Rightarrow> (Inr (), s2)
            | Some c \<Rightarrow> if c = 0 then (Inr (), s2) else setConcurrency E r n c s2))"
proof (intro conjI impI)
  assume a: "fst (createV2Function_submit E F r s) = Inr n
      \<and> fst (createV2Function_invoker E r n (snd (createV2Function_submit E F r s))) = Inr ()"
  obtain s1 where s1: "createV2Function_submit E F r s = (Inr n, s1)"
    using a by (cases "createV2Function_submit E F r s") simp
  obtain s2 where s2: "createV2Function_invoker E r n s1 = (Inr (), s2)"
    using a s1 by (cases "createV2Function_invoker E r n s1") simp
  show "createV2Function E F r s =
        (let s2 = snd (createV2Function_invoker E r n (snd (createV2Function_submit E F r s)));
             ep = heap s2 r;
             mem = (case availableMemoryMb ep of
                      None \<Rightarrow> DEFAULT_MEMORY E
                    | Some m \<Rightarrow> if m = 0 then DEFAULT_MEMORY E else m)
         in if MIN_MEMORY_FOR_CONCURRENCY E \<le> mem \<and> concurrency ep \<noteq> Some 1
            then setConcurrency E r n
                   (case concurrency ep of None \<Rightarrow> 80 | Some c \<Rightarrow> if c = 0 then 80 else c) s2
            else (Inr (), s2))"
    by (simp add: createV2Function_def await_def s1 s2 createV2Function_concurrency_def
        getEndpoint_def resolve_def DEFAULT_GCFV2_CONCURRENCY_def Let_def
        split: option.splits)
next
  assume a: "fst (updateV2Function_submit E F r s) = Inr n
      \<and> fst (updateV2Function_invoker E r n (snd (updateV2Function_submit E F r s))) = Inr ()"
  obtain s1 where s1: "updateV2Function_submit E F r s = (Inr n, s1)"
    using a by (cases "updateV2Function_submit E F r s") simp
  obtain s2 where s2: "updateV2Function_invoker E r n s1 = (Inr (), s2)"
    using a s1 by (cases "updateV2Function_invoker E r n s1") simp
  show "updateV2Function E F r s =
        (let s2 = snd (updateV2Function_invoker E r n (snd (updateV2Function_submit E F r s)));
             ep = heap s2 r
         in case concurrency ep of
              None \<Rightarrow> (Inr (), s2)
            | Some c \<Rightarrow> if c = 0 then (Inr (), s2) else setConcurrency E r n c s2)"
    by (simp add: updateV2Function_def await_def s1 s2 updateV2Function_concurrency_def
        getEndpoint_def resolve_def Let_def split: option.splits)
qed

theorem v2_concurrency_policy_witness:
  "fst (createV2Function_submit (ex_env fails_none) ex_fabricator 2
          (ex_state ex_heap_concurrency)) = Inr (Some ''service'')
   \<and> fst (createV2Function_invoker (ex_env fails_none) 2 (Some ''service'')
            (snd (createV2Function_submit (ex_env fails_none) ex_fabricator 2
                    (ex_state ex_heap_concurrency)))) = Inr ()
   \<and> createV2Function (ex_env fails_none) ex_fabricator 2 (ex_state ex_heap_concurrency) =
       setConcurrency (ex_env fails_none) 2 (Some ''service'') 80
         (snd (createV2Function_invoker (ex_env fails_none) 2 (Some ''service'')
            (snd (createV2Function_submit (ex_env fails_none) ex_fabricator 2
                    (ex_state ex_heap_concurrency)))))
   \<and> fst (updateV2Function_submit (ex_env fails_none) ex_fabricator 0
          (ex_state ex_heap_concurrency)) = Inr (Some ''service'')
   \<and> fst (updateV2Function_invoker (ex_env fails_none) 0 (Some ''service'')
            (snd (updateV2Function_submit (ex_env fails_none) ex_fabricator 0
                    (ex_state ex_heap_concurrency)))) = Inr ()
   \<and> updateV2Function (ex_env fails_none) ex_fabricator 0 (ex_state ex_heap_concurrency) =
       setConcurrency (ex_env fails_none) 0 (Some ''service'') 1
         (snd (updateV2Function_invoker (ex_env fails_none) 0 (Some ''service'')
            (snd (updateV2Function_submit (ex_env fails_none) ex_fabricator 0
                    (ex_state ex_heap_concurrency)))))"
proof -
  let ?E = "ex_env fails_none" and ?s = "ex_state ex_heap_concurrency"
  let ?c = "snd (createV2Function_invoker ?E 2 (Some ''service'')
                   (snd (createV2Function_submit ?E ex_fabricator 2 ?s)))"
  let ?u = "snd (updateV2Function_invoker ?E 0 (Some ''service'')
                   (snd (updateV2Function_submit ?E ex_fabricator 0 ?s)))"
  have c1: "fst (createV2Function_submit ?E ex_fabricator 2 ?s) = Inr (Some ''service'')"
    and c2: "fst (createV2Function_invoker ?E 2 (Some ''service'')
                    (snd (createV2Function_submit ?E ex_fabricator 2 ?s))) = Inr ()"
    and u1: "fst (updateV2Function_submit ?E ex_fabricator 0 ?s) = Inr (Some ''service'')"
    and u2: "fst (updateV2Function_invoker ?E 0 (Some ''service'')
                    (snd (updateV2Function_submit ?E ex_fabricator 0 ?s))) = Inr ()"
    by (simp_all add: promise_defs fabricator_defs example_defs)
  have ec: "availableMemoryMb (heap ?c 2) = Some 4096" "concurrency (heap ?c 2) = None"
    and eu: "concurrency (heap ?u 0) = Some 1"
    by (simp_all add: promise_defs fabricator_defs example_defs)
  have m: "MIN_MEMORY_FOR_CONCURRENCY ?E = 2048" by (simp add: ex_env_def)
  note create = v2_concurrency_policy [THEN conjunct1, rule_format, OF conjI [OF c1 c2]]
    and update = v2_concurrency_policy [THEN conjunct2, rule_format, OF conjI [OF u1 u2]]
  have a: "createV2Function ?E ex_fabricator 2 ?s = setConcurrency ?E 2 (Some ''service'') 80 ?c"
    unfolding create Let_def ec m by simp
  have b: "updateV2Function ?E ex_fabricator 0 ?s = setConcurrency ?E 0 (Some ''service'') 1 ?u"
    unfolding update Let_def eu by simp
  from c1 c2 a u1 u2 b show ?thesis by (intro conjI)
qed

text \<open>
  C8. \<^verbatim>\<open>setConcurrency\<close> fetches the live service, and that is all it issues when the fetch
  fails or when the service's container concurrency already equals the target. Only when
  the fetched concurrency differs from the target does it issue the replace call, for the
  fetched service with \<^verbatim>\<open>status\<close> and the template's \<^verbatim>\<open>name\<close> cleared and the concurrency
  set to the target.
\<close>

theorem setConcurrency_replaces_only_on_difference:
  "issuedBy (setConcurrency E r serviceName c) s =
     Issued (RunGetService serviceName) #
       (case getService E (trace s) serviceName of
          Inl e \<Rightarrow> []
        | Inr svc \<Rightarrow>
            if containerConcurrency svc = Some c then []
            else [Issued (RunReplaceService serviceName
                    (svc\<lparr>svc_status := None, templateName := None,
                         containerConcurrency := Some c\<rparr>))])"
  by (simp add: issuedBy_def setConcurrency_def resolve_def reject_def await_def catch_def
      rethrowAs_def run_def run_getService_def issue_def record_event_def
      split: sum.splits option.splits)

text \<open>
  C9, as stated, fails when the poll that resolves the token reports none. In a world
  whose polls are done without reporting a source token, a changeset creates two v1
  endpoints: the second create call is submitted with an empty token.
\<close>

theorem second_create_has_empty_token:
  "issuedBy (applyChangeset ex_env_silent ex_fabricator ex_changes_ab) (ex_state ex_heap_abd) =
     [Issued (GcfCreateFunction
        \<lparr>cf_name = ''a'',
         httpsTrigger = Some \<lparr>securityLevel = Some ''SECURE_ALWAYS'', url = None\<rparr>,
         sourceToken = None\<rparr>),
      Issued (PollOperation (gcfV1PollerOptions ''create-us-central1-a'' ''operation'' True)),
      Polled \<lparr>reported = None, op_done = True\<rparr>,
      Issued (GcfSetInvokerCreate ''demo'' ''a'' [''public'']),
      Issued (GcfCreateFunction \<lparr>cf_name = ''b'', httpsTrigger = None, sourceToken = None\<rparr>),
      Issued (PollOperation (gcfV1PollerOptions ''create-us-central1-b'' ''operation'' True)),
      Polled \<lparr>reported = None, op_done = True\<rparr>,
      Issued (GcfSetInvokerCreate ''demo'' ''b'' [''public''])]"
  by (simp add: issuedBy_def promise_defs fabricator_defs example_defs)

text \<open>
  C9, amended. When the source URL is present, the submission of a v1 create or update
  stops at the scraper's token promise, with the build of the endpoint's descriptor as
  what it does next. When the call of a build is accepted, the events of the build are the
  call, whose descriptor carries the token the build was given, the poll with the
  scraper's hook, and every poll tick handed to the hook; the scraper afterwards is the
  one before with every tick fed to it. And in the events of a changeset, the first create
  or update call of the v1 platform is submitted with the empty token, and every later
  one with the token that the polls before it in the changeset have resolved: what the
  first poll that reports a token or is done reports, which is the empty token when that
  poll reports none.
\<close>

theorem source_token_reuse:
  "(sourceUrl F = Some u \<and> u \<noteq> [] \<longrightarrow>
      createV1Function_submit E F r s0 =
        (AwaitsToken (fst (tokenPromise s0))
           (createV1Function_build E r
              (requireHttps (gcf_functionFromEndpoint E (heap s0 r) u))),
         snd (tokenPromise s0))
      \<and> updateV1Function_submit E F r s0 =
        (AwaitsToken (fst (tokenPromise s0))
           (updateV1Function_build E r (gcf_functionFromEndpoint E (heap s0 r) u)),
         snd (tokenPromise s0)))
   \<and> (d = apiFunction\<lparr>sourceToken := tok\<rparr>
      \<and> startOperation E (trace s) (GcfCreateFunction d) = Inr opName
      \<and> opts = gcfV1PollerOptions (''create-'' @ region (heap s r) @ ''-'' @ id' (heap s r))
                  opName True
      \<and> ticks = fst (pollV1 E (trace s @ [Issued (GcfCreateFunction d)]) opts)
    \<longrightarrow>
      issuedBy (createV1Function_build E r apiFunction tok) s =
        Issued (GcfCreateFunction d) # Issued (PollOperation opts) # map Polled ticks
      \<and> scraper (snd (createV1Function_build E r apiFunction tok s)) =
          fold poller ticks (scraper s))
   \<and> (d' = apiFunction\<lparr>sourceToken := tok\<rparr>
      \<and> startOperation E (trace s) (GcfUpdateFunction d') = Inr opName'
      \<and> opts' = gcfV1PollerOptions (''update-'' @ region (heap s r) @ ''-'' @ id' (heap s r))
                   opName' True
      \<and> ticks' = fst (pollV1 E (trace s @ [Issued (GcfUpdateFunction d')]) opts')
    \<longrightarrow>
      issuedBy (updateV1Function_build E r apiFunction tok) s =
        Issued (GcfUpdateFunction d') # Issued (PollOperation opts') # map Polled ticks'
      \<and> scraper (snd (updateV1Function_build E r apiFunction tok s)) =
          fold poller ticks' (scraper s))
   \<and> (issuedBy (applyChangeset E F changes) s = pre @ ev # post
      \<and> submitted ev = Some given
    \<longrightarrow> (if list_ex (\<lambda>e. submitted e \<noteq> None) pre then scrapedFrom pre = Some given
         else given = None))"
proof (intro conjI impI)
  assume a: "sourceUrl F = Some u \<and> u \<noteq> []"
  then have u: "sourceUrl F = Some u" "u \<noteq> []" by simp_all
  show "createV1Function_submit E F r s0 =
        (AwaitsToken (fst (tokenPromise s0))
           (createV1Function_build E r
              (requireHttps (gcf_functionFromEndpoint E (heap s0 r) u))),
         snd (tokenPromise s0))"
    by (rule resumed_createV1Function_submit(2) [OF u])
  show "updateV1Function_submit E F r s0 =
        (AwaitsToken (fst (tokenPromise s0))
           (updateV1Function_build E r (gcf_functionFromEndpoint E (heap s0 r) u)),
         snd (tokenPromise s0))"
    by (rule resumed_updateV1Function_submit(2) [OF u])
next
  assume a: "d = apiFunction\<lparr>sourceToken := tok\<rparr>
      \<and> startOperation E (trace s) (GcfCreateFunction d) = Inr opName
      \<and> opts = gcfV1PollerOptions (''create-'' @ region (heap s r) @ ''-'' @ id' (heap s r))
                  opName True
      \<and> ticks = fst (pollV1 E (trace s @ [Issued (GcfCreateFunction d)]) opts)"
  then have h: "d = apiFunction\<lparr>sourceToken := tok\<rparr>"
      "startOperation E (trace s) (GcfCreateFunction d) = Inr opName"
      "opts = gcfV1PollerOptions (''create-'' @ region (heap s r) @ ''-'' @ id' (heap s r))
                  opName True"
      "ticks = fst (pollV1 E (trace s @ [Issued (GcfCreateFunction d)]) opts)"
    by blast+
  show "issuedBy (createV1Function_build E r apiFunction tok) s =
        Issued (GcfCreateFunction d) # Issued (PollOperation opts) # map Polled ticks"
    by (rule createV1Function_build_events(1) [OF h])
  show "scraper (snd (createV1Function_build E r apiFunction tok s)) =
          fold poller ticks (scraper s)"
    by (rule createV1Function_build_events(2) [OF h])
next
  assume a: "d' = apiFunction\<lparr>sourceToken := tok\<rparr>
      \<and> startOperation E (trace s) (GcfUpdateFunction d') = Inr opName'
      \<and> opts' = gcfV1PollerOptions (''update-'' @ region (heap s r) @ ''-'' @ id' (heap s r))
                   opName' True
      \<and> ticks' = fst (pollV1 E (trace s @ [Issued (GcfUpdateFunction d')]) opts')"
  then have h: "d' = apiFunction\<lparr>sourceToken := tok\<rparr>"
      "startOperation E (trace s) (GcfUpdateFunction d') = Inr opName'"
      "opts' = gcfV1PollerOptions (''update-'' @ region (heap s r) @ ''-'' @ id' (heap s r))
                   opName' True"
      "ticks' = fst (pollV1 E (trace s @ [Issued (GcfUpdateFunction d')]) opts')"
    by blast+
  show "issuedBy (updateV1Function_build E r apiFunction tok) s =
        Issued (GcfUpdateFunction d') # Issued (PollOperation opts') # map Polled ticks'"
    by (rule updateV1Function_build_events(1) [OF h])
  show "scraper (snd (updateV1Function_build E r apiFunction tok s)) =
          fold poller ticks' (scraper s)"
    by (rule updateV1Function_build_events(2) [OF h])
next
  assume a: "issuedBy (applyChangeset E F changes) s = pre @ ev # post
      \<and> submitted ev = Some given"
  then have ev: "issuedBy (applyChangeset E F changes) s = pre @ ev # post"
    and c: "submitted ev = Some given"
    by blast+
  from applyChangeset_tokensFollow [of E F changes s] ev
  have "tokensFollow [] (pre @ ev # post)" by simp
  then show "if list_ex (\<lambda>e. submitted e \<noteq> None) pre then scrapedFrom pre = Some given
         else given = None"
    using c by (rule tokensFollow_at)
qed

theorem source_token_reuse_witness:
  "sourceUrl ex_fabricator = Some ''source.zip''
   \<and> createV1Function_submit (ex_env fails_none) ex_fabricator 0 (ex_state ex_heap_abd) =
       (AwaitsToken (Resolved None)
          (createV1Function_build (ex_env fails_none) 0
             \<lparr>cf_name = ''a'',
              httpsTrigger = Some \<lparr>securityLevel = Some ''SECURE_ALWAYS'', url = None\<rparr>,
              sourceToken = None\<rparr>),
        (ex_state ex_heap_abd)\<lparr>scraper := \<lparr>firstCall = False, token = None\<rparr>\<rparr>)
   \<and> updateV1Function_submit (ex_env fails_none) ex_fabricator 1
        ((ex_state ex_heap_abd)\<lparr>scraper := \<lparr>firstCall = False, token = None\<rparr>\<rparr>) =
       (AwaitsToken Shared
          (updateV1Function_build (ex_env fails_none) 1
             \<lparr>cf_name = ''b'', httpsTrigger = None, sourceToken = None\<rparr>),
        (ex_state ex_heap_abd)\<lparr>scraper := \<lparr>firstCall = False, token = None\<rparr>\<rparr>)
   \<and> startOperation (ex_env fails_none) (trace (ex_state ex_heap_abd))
        (GcfCreateFunction
           \<lparr>cf_name = ''a'',
            httpsTrigger = Some \<lparr>securityLevel = Some ''SECURE_ALWAYS'', url = None\<rparr>,
            sourceToken = None\<rparr>) = Inr ''operation''
   \<and> issuedBy (createV1Function_build (ex_env fails_none) 0
                  \<lparr>cf_name = ''a'',
                   httpsTrigger = Some \<lparr>securityLevel = Some ''SECURE_ALWAYS'', url = None\<rparr>,
                   sourceToken = None\<rparr> None)
        (ex_state ex_heap_abd) =
       [Issued (GcfCreateFunction
          \<lparr>cf_name = ''a'',
           httpsTrigger = Some \<lparr>securityLevel = Some ''SECURE_ALWAYS'', url = None\<rparr>,
           sourceToken = None\<rparr>),
        Issued (PollOperation (gcfV1PollerOptions ''create-us-central1-a'' ''operation'' True)),
        Polled \<lparr>reported = Some ''token'', op_done = True\<rparr>]
   \<and> scraper (snd (createV1Function_build (ex_env fails_none) 0
                      \<lparr>cf_name = ''a'',
                       httpsTrigger =
                         Some \<lparr>securityLevel = Some ''SECURE_ALWAYS'', url = None\<rparr>,
                       sourceToken = None\<rparr> None
                      ((ex_state ex_heap_abd)
                         \<lparr>scraper := \<lparr>firstCall = False, token = None\<rparr>\<rparr>))) =
       \<lparr>firstCall = False, token = Some (Some ''token'')\<rparr>
   \<and> issuedBy (updateV1Function_build (ex_env fails_none) 1
                  \<lparr>cf_name = ''b'', httpsTrigger = None, sourceToken = None\<rparr>
                  (Some ''token''))
        (ex_state ex_heap_abd) =
       [Issued (GcfUpdateFunction
          \<lparr>cf_name = ''b'', httpsTrigger = None, sourceToken = Some ''token''\<rparr>),
        Issued (PollOperation (gcfV1PollerOptions ''update-us-central1-b'' ''operation'' True)),
        Polled \<lparr>reported = Some ''token'', op_done = True\<rparr>]
   \<and> issuedBy (applyChangeset (ex_env fails_none) ex_fabricator ex_changes_ab)
        (ex_state ex_heap_abd) =
       [Issued (GcfCreateFunction
          \<lparr>cf_name = ''a'',
           httpsTrigger = Some \<lparr>securityLevel = Some ''SECURE_ALWAYS'', url = None\<rparr>,
           sourceToken = None\<rparr>),
        Issued (PollOperation (gcfV1PollerOptions ''create-us-central1-a'' ''operation'' True)),
        Polled \<lparr>reported = Some ''token'', op_done = True\<rparr>,
        Issued (GcfSetInvokerCreate ''demo'' ''a'' [''public''])]
       @ Issued (GcfCreateFunction
           \<lparr>cf_name = ''b'', httpsTrigger = None, sourceToken = Some ''token''\<rparr>)
       # [Issued (PollOperation (gcfV1PollerOptions ''create-us-central1-b'' ''operation'' True)),
          Polled \<lparr>reported = Some ''token'', op_done = True\<rparr>,
          Issued (GcfSetInvokerCreate ''demo'' ''b'' [''public''])]
   \<and> scrapedFrom
        [Issued (GcfCreateFunction
           \<lparr>cf_name = ''a'',
            httpsTrigger = Some \<lparr>securityLevel = Some ''SECURE_ALWAYS'', url = None\<rparr>,
            sourceToken = None\<rparr>),
         Issued (PollOperation (gcfV1PollerOptions ''create-us-central1-a'' ''operation'' True)),
         Polled \<lparr>reported = Some ''token'', op_done = True\<rparr>,
         Issued (GcfSetInvokerCreate ''demo'' ''a'' [''public''])] = Some (Some ''token'')"
proof -
  let ?E = "ex_env fails_none" and ?s = "ex_state ex_heap_abd"
  let ?sf = "?s\<lparr>scraper := \<lparr>firstCall = False, token = None\<rparr>\<rparr>"
  let ?fa = "\<lparr>cf_name = ''a'',
              httpsTrigger = Some \<lparr>securityLevel = Some ''SECURE_ALWAYS'', url = None\<rparr>,
              sourceToken = None\<rparr>"
  let ?fbn = "\<lparr>cf_name = ''b'', httpsTrigger = None, sourceToken = None :: string option\<rparr>"
  let ?fb = "\<lparr>cf_name = ''b'', httpsTrigger = None, sourceToken = Some ''token''\<rparr>"
  let ?oa = "gcfV1PollerOptions ''create-us-central1-a'' ''operation'' True"
  let ?ob = "gcfV1PollerOptions ''update-us-central1-b'' ''operation'' True"
  let ?tick = "\<lparr>reported = Some ''token'', op_done = True\<rparr>"
  let ?pre = "[Issued (GcfCreateFunction ?fa), Issued (PollOperation ?oa), Polled ?tick,
               Issued (GcfSetInvokerCreate ''demo'' ''a'' [''public''])]"
  let ?post = "[Issued (PollOperation
                  (gcfV1PollerOptions ''create-us-central1-b'' ''operation'' True)),
                Polled ?tick, Issued (GcfSetInvokerCreate ''demo'' ''b'' [''public''])]"
  note main = source_token_reuse
  have src: "sourceUrl ex_fabricator = Some ''source.zip''" by (simp add: ex_fabricator_def)
  have ne: "''source.zip'' \<noteq> []" by simp
  note submit = main [THEN conjunct1, rule_format, OF conjI [OF src ne]]
  have c0: "createV1Function_submit ?E ex_fabricator 0 ?s =
      (AwaitsToken (Resolved None) (createV1Function_build ?E 0 ?fa), ?sf)"
    unfolding submit [THEN conjunct1]
    by (simp add: tokenPromise_def requireHttps_def newScraper_def example_defs)
  have u0: "updateV1Function_submit ?E ex_fabricator 1 ?sf =
      (AwaitsToken Shared (updateV1Function_build ?E 1 ?fbn), ?sf)"
    unfolding submit [THEN conjunct2]
    by (simp add: tokenPromise_def newScraper_def example_defs)
  have da: "?fa = ?fa\<lparr>sourceToken := None\<rparr>" and db: "?fb = ?fbn\<lparr>sourceToken := Some ''token''\<rparr>"
    by simp_all
  have sa: "startOperation ?E (trace ?s) (GcfCreateFunction ?fa) = Inr ''operation''"
    and sa1: "startOperation ?E (trace ?sf) (GcfCreateFunction ?fa) = Inr ''operation''"
    and sb: "startOperation ?E (trace ?s) (GcfUpdateFunction ?fb) = Inr ''operation''"
    by (simp_all add: example_defs)
  have oa: "?oa = gcfV1PollerOptions (''create-'' @ region (heap ?s 0) @ ''-'' @ id' (heap ?s 0))
                    ''operation'' True"
    and oa1: "?oa = gcfV1PollerOptions
                    (''create-'' @ region (heap ?sf 0) @ ''-'' @ id' (heap ?sf 0))
                    ''operation'' True"
    and ob: "?ob = gcfV1PollerOptions (''update-'' @ region (heap ?s 1) @ ''-'' @ id' (heap ?s 1))
                    ''operation'' True"
    by (simp_all add: example_defs)
  have ta: "[?tick] = fst (pollV1 ?E (trace ?s @ [Issued (GcfCreateFunction ?fa)]) ?oa)"
    and ta1: "[?tick] = fst (pollV1 ?E (trace ?sf @ [Issued (GcfCreateFunction ?fa)]) ?oa)"
    and tb: "[?tick] = fst (pollV1 ?E (trace ?s @ [Issued (GcfUpdateFunction ?fb)]) ?ob)"
    by (simp_all add: example_defs)
  note create = main [THEN conjunct2, THEN conjunct1, rule_format,
      OF conjI [OF da conjI [OF sa conjI [OF oa ta]]]]
  note create1 = main [THEN conjunct2, THEN conjunct1, rule_format,
      OF conjI [OF da conjI [OF sa1 conjI [OF oa1 ta1]]]]
  note update = main [THEN conjunct2, THEN conjunct2, THEN conjunct1, rule_format,
      OF conjI [OF db conjI [OF sb conjI [OF ob tb]]]]
  have c1: "issuedBy (createV1Function_build ?E 0 ?fa None) ?s =
      [Issued (GcfCreateFunction ?fa), Issued (PollOperation ?oa), Polled ?tick]"
    using create by simp
  have c2: "scraper (snd (createV1Function_build ?E 0 ?fa None ?sf)) =
      \<lparr>firstCall = False, token = Some (Some ''token'')\<rparr>"
    using create1 by (simp add: poller_def)
  have u1: "issuedBy (updateV1Function_build ?E 1 ?fbn (Some ''token'')) ?s =
      [Issued (GcfUpdateFunction ?fb), Issued (PollOperation ?ob), Polled ?tick]"
    using update by simp
  have ev: "issuedBy (applyChangeset ?E ex_fabricator ex_changes_ab) ?s =
      ?pre @ Issued (GcfCreateFunction ?fb) # ?post"
    by (simp add: issuedBy_def promise_defs fabricator_defs example_defs)
  have sub: "submitted (Issued (GcfCreateFunction ?fb)) = Some (Some ''token'')" by simp
  have ex: "list_ex (\<lambda>e. submitted e \<noteq> None) ?pre" by simp
  from main [THEN conjunct2, THEN conjunct2, THEN conjunct2, rule_format,
      OF conjI [OF ev sub]] ex
  have tok: "scrapedFrom ?pre = Some (Some ''token'')" by (simp only: if_True)
  from src c0 u0 sa c1 c2 u1 ev tok show ?thesis by (intro conjI)
qed

text \<open>
  C10. Every create call of the v1 platform that \<^verbatim>\<open>applyPlan\<close> issues carries a descriptor
  whose HTTPS trigger, if it has one, has \<^verbatim>\<open>securityLevel = "SECURE_ALWAYS"\<close>. And when the
  source URL is present and the descriptor built from the endpoint at the launch has an
  HTTPS trigger \<open>t\<close>, the first event of \<^verbatim>\<open>createV1Function\<close>, once it continues with the
  token, is the create call, submitted with \<open>t\<close> changed in its security level only.
\<close>

theorem v1_create_requires_https:
  "list_all secureCreate (issuedBy (applyPlan E F plan) s)
   \<and> (sourceUrl F = Some u \<and> u \<noteq> []
        \<and> httpsTrigger (gcf_functionFromEndpoint E (heap s0 r) u) = Some t \<longrightarrow>
      (\<exists>fn. take 1 (issuedBy (resumed (createV1Function E F r) s0 tok) s) =
               [Issued (GcfCreateFunction fn)]
         \<and> httpsTrigger fn = Some (t\<lparr>securityLevel := Some ''SECURE_ALWAYS''\<rparr>)))"
proof (intro conjI impI)
  show "list_all secureCreate (issuedBy (applyPlan E F plan) s)"
    by (rule applyPlan_secureCreate)
next
  assume a: "sourceUrl F = Some u \<and> u \<noteq> []
    \<and> httpsTrigger (gcf_functionFromEndpoint E (heap s0 r) u) = Some t"
  then have "take 1 (issuedBy (resumed (createV1Function E F r) s0 tok) s) =
           [Issued (GcfCreateFunction
              ((requireHttps (gcf_functionFromEndpoint E (heap s0 r) u))
                 \<lparr>sourceToken := tok\<rparr>))]"
    by (intro createV1Function_first) simp_all
  moreover from a have "httpsTrigger ((requireHttps (gcf_functionFromEndpoint E (heap s0 r) u))
                 \<lparr>sourceToken := tok\<rparr>) = Some (t\<lparr>securityLevel := Some ''SECURE_ALWAYS''\<rparr>)"
    by (simp add: requireHttps_def)
  ultimately show "\<exists>fn. take 1 (issuedBy (resumed (createV1Function E F r) s0 tok) s) =
               [Issued (GcfCreateFunction fn)]
         \<and> httpsTrigger fn = Some (t\<lparr>securityLevel := Some ''SECURE_ALWAYS''\<rparr>)"
    by blast
qed

theorem v1_create_requires_https_witness:
  "sourceUrl ex_fabricator = Some ''source.zip'' \<and> ''source.zip'' \<noteq> []
   \<and> httpsTrigger (gcf_functionFromEndpoint (ex_env fails_none)
        (heap (ex_state ex_heap_abd) 0) ''source.zip'') = Some \<lparr>securityLevel = None, url = None\<rparr>
   \<and> list_all secureCreate
        (issuedBy (applyPlan (ex_env fails_none) ex_fabricator [ex_changes_abd])
           (ex_state ex_heap_abd))
   \<and> (\<exists>fn. take 1 (issuedBy (resumed (createV1Function (ex_env fails_none) ex_fabricator 0)
                                (ex_state ex_heap_abd) None)
                      (ex_state ex_heap_abd)) = [Issued (GcfCreateFunction fn)]
         \<and> httpsTrigger fn = Some \<lparr>securityLevel = Some ''SECURE_ALWAYS'', url = None\<rparr>)"
proof -
  have h: "sourceUrl ex_fabricator = Some ''source.zip''" "''source.zip'' \<noteq> []"
    "httpsTrigger (gcf_functionFromEndpoint (ex_env fails_none)
        (heap (ex_state ex_heap_abd) 0) ''source.zip'') = Some \<lparr>securityLevel = None, url = None\<rparr>"
    by (simp_all add: example_defs)
  from v1_create_requires_https [of "ex_env fails_none" ex_fabricator "[ex_changes_abd]"
      "ex_state ex_heap_abd" "''source.zip''" "ex_state ex_heap_abd" 0
      "\<lparr>securityLevel = None, url = None\<rparr>" None] h
  show ?thesis by simp
qed

end
